theory Spec2Isabelle
  imports Main
begin

section \<open>The document reader (XmlReader.cpp, src/unnamed/part\_000)\<close>

subsection \<open>Enumerations\<close>

text \<open>
  The reader's header is not among the sources. The document states the source names
  (\<open>PrologWaitForXmlDeclaration\<close>, \<open>PrologWaitForDocumentType\<close>, \<open>Element\<close>) keep
  their names; the other three phases are the ones the specification lists.
\<close>

datatype DocumentState =
    DocumentState_PrologWaitForXmlDeclaration
  | DocumentState_PrologWaitForDocumentType
  | DocumentState_PrologWaitForRoot
  | DocumentState_Element
  | DocumentState_Epilog
  | DocumentState_Ended

datatype ParsingState =
    ParsingState_Idle
  | ParsingState_ReadingTokenType
  | ParsingState_ReadingProcessingInstruction
  | ParsingState_ReadingDocumentType
  | ParsingState_ReadingComment
  | ParsingState_ReadingCData
  | ParsingState_ReadingStartOfElement
  | ParsingState_ReadingEndOfElement
  | ParsingState_ProcessingInstructionRead
  | ParsingState_XmlDeclarationRead
  | ParsingState_Error

text \<open>
  \<open>parse\<close> assigns only \<open>Error\<close>, \<open>NeedMoreData\<close>, \<open>ProcessingInstruction\<close> and
  \<open>XmlDeclaration\<close>; \<open>startNewDocument\<close> assigns \<open>None\<close>. The remaining values are
  the ones the specification gives the result type.
\<close>

datatype ParsingResult =
    ParsingResult_None
  | ParsingResult_NeedMoreData
  | ParsingResult_XmlDeclaration
  | ParsingResult_ProcessingInstruction
  | ParsingResult_DocumentType
  | ParsingResult_Comment
  | ParsingResult_CData
  | ParsingResult_StartOfElement
  | ParsingResult_EndOfElement
  | ParsingResult_TextNode
  | ParsingResult_EndOfDocument
  | ParsingResult_Error

text \<open>The three enumerations of \<open>AbstractTokenParser\<close> that the reader switches on.\<close>

datatype Result = Result_NeedMoreData | Result_Success | Result_Error

datatype TokenType =
    TokenType_None
  | TokenType_Whitespace
  | TokenType_XmlDeclaration
  | TokenType_ProcessingInstruction
  | TokenType_DocumentType
  | TokenType_Comment
  | TokenType_CData
  | TokenType_StartOfElement
  | TokenType_EndOfElement

datatype Option = Option_None | Option_Synchronization | Option_IgnoreLeadingWhitespace

subsection \<open>Tokens\<close>

text \<open>
  Modelled from the spec: the token classes \<open>Common::XmlDeclaration\<close> and
  \<open>Common::ProcessingInstruction\<close>, whose headers are not among the sources. The fields
  are those of the specification's data model,
  \<open>{version: string, encoding: option<string>, standalone: option<Tri>}\<close> with
  \<open>Tri\<close> one of \<open>Yes\<close>, \<open>No\<close>, \<open>Unset\<close>, and \<open>{target: string, data: string}\<close>,
  under the accessor names the demo calls. \<open>clear\<close> empties a token.
\<close>

datatype Tri = Tri_Yes | Tri_No | Tri_Unset

record XmlDeclaration =
  version :: string
  encoding :: "string option"
  standalone :: "Tri option"

record ProcessingInstruction =
  piTarget :: string
  piData :: string

definition XmlDeclaration_clear :: XmlDeclaration where
  "XmlDeclaration_clear = \<lparr>version = [], encoding = None, standalone = None\<rparr>"

definition ProcessingInstruction_clear :: ProcessingInstruction where
  "ProcessingInstruction_clear = \<lparr>piTarget = [], piData = []\<rparr>"

subsection \<open>The collaborators of the reader\<close>

text \<open>
  The token parsers (\<open>TokenTypeParser\<close>, \<open>ProcessingInstructionParser\<close>), the parsing
  buffer and the validity checks of the two token classes are not among the sources.
  The reader is therefore modelled over any implementation of them: \<open>'p\<close> is the state
  of a token parser object, \<open>'b\<close> the state of the parsing buffer the parsers share with
  the reader. A call of a parser's \<open>parse\<close> may change both.
\<close>

record ('p, 'b) Collaborators =
  newTokenTypeParser :: "Option \<Rightarrow> 'p"
  newProcessingInstructionParser :: "'p"
  isValid :: "'p \<Rightarrow> bool"
  tokenParser_parse :: "'p \<Rightarrow> 'b \<Rightarrow> Result \<times> 'p \<times> 'b"
  tokenFound :: "'p \<Rightarrow> TokenType"
  setOption :: "Option \<Rightarrow> 'p \<Rightarrow> bool \<times> 'p"
  isProcessingInstructionParser :: "'p \<Rightarrow> bool"
  parser_processingInstruction :: "'p \<Rightarrow> ProcessingInstruction"
  parser_xmlDeclaration :: "'p \<Rightarrow> XmlDeclaration"
  processingInstruction_isValid :: "ProcessingInstruction \<Rightarrow> bool"
  xmlDeclaration_isValid :: "XmlDeclaration \<Rightarrow> bool"
  buffer_writeData :: "string \<Rightarrow> 'b \<Rightarrow> nat \<times> 'b"
  buffer_clear :: "'b \<Rightarrow> 'b"
  buffer_eraseToCurrentPosition :: "'b \<Rightarrow> 'b"

subsection \<open>The reader's state and operations\<close>

text \<open>\<open>m_tokenParser\<close> is a pointer: \<open>None\<close> is \<open>NULL\<close>.\<close>

record ('p, 'b) XmlReader =
  m_documentState :: DocumentState
  m_parsingState :: ParsingState
  m_lastParsingResult :: ParsingResult
  m_parsingBuffer :: 'b
  m_xmlDeclaration :: XmlDeclaration
  m_processingInstruction :: ProcessingInstruction
  m_tokenParser :: "'p option"

definition startNewDocument ::
  "('p, 'b) Collaborators \<Rightarrow> ('p, 'b) XmlReader \<Rightarrow> ('p, 'b) XmlReader" where
  "startNewDocument C r =
     r\<lparr>m_documentState := DocumentState_PrologWaitForXmlDeclaration,
       m_parsingState := ParsingState_Idle,
       m_lastParsingResult := ParsingResult_None,
       m_parsingBuffer := buffer_eraseToCurrentPosition C (m_parsingBuffer r),
       m_xmlDeclaration := XmlDeclaration_clear,
       m_processingInstruction := ProcessingInstruction_clear,
       m_tokenParser := None\<rparr>"

definition clear :: "('p, 'b) Collaborators \<Rightarrow> ('p, 'b) XmlReader \<Rightarrow> ('p, 'b) XmlReader" where
  "clear C r = startNewDocument C (r\<lparr>m_parsingBuffer := buffer_clear C (m_parsingBuffer r)\<rparr>)"

definition writeData ::
  "('p, 'b) Collaborators \<Rightarrow> string \<Rightarrow> ('p, 'b) XmlReader \<Rightarrow> nat \<times> ('p, 'b) XmlReader" where
  "writeData C d r =
     (case buffer_writeData C d (m_parsingBuffer r) of
        (n, b) \<Rightarrow> (n, r\<lparr>m_parsingBuffer := b\<rparr>))"

text \<open>
  \<open>setTokenParser\<close> is only ever called with the result of \<open>new\<close>, which is not
  \<open>NULL\<close>; what remains is the validity check.
\<close>

definition setTokenParser ::
  "('p, 'b) Collaborators \<Rightarrow> 'p \<Rightarrow> ('p, 'b) XmlReader \<Rightarrow> bool \<times> ('p, 'b) XmlReader" where
  "setTokenParser C p r =
     (if isValid C p then (True, r\<lparr>m_tokenParser := Some p\<rparr>) else (False, r))"

definition lastParsingResult :: "('p, 'b) XmlReader \<Rightarrow> ParsingResult" where
  "lastParsingResult r = m_lastParsingResult r"

definition xmlDeclaration :: "('p, 'b) XmlReader \<Rightarrow> XmlDeclaration" where
  "xmlDeclaration r = m_xmlDeclaration r"

definition processingInstruction :: "('p, 'b) XmlReader \<Rightarrow> ProcessingInstruction" where
  "processingInstruction r = m_processingInstruction r"

text \<open>
  A loop of the form \<open>while (!finishParsing)\<close> is modelled by its body, which either
  asks for another cycle (it has reset \<open>finishParsing\<close>) or finishes with the values
  the function goes on with.
\<close>

datatype ('s, 'y) Cycle = AnotherCycle 's | Finish 'y

text \<open>
  The body of the loop of \<open>executeParsingStateReadingTokenType\<close>. The argument
  \<open>nextState\<close> is the local of that name; a body that asks for another cycle has not
  assigned it. The result is \<open>None\<close> when \<open>m_tokenParser\<close> is \<open>NULL\<close> where it is
  dereferenced.
\<close>

definition readingTokenType_cycle ::
  "('p, 'b) Collaborators \<Rightarrow> ParsingState \<Rightarrow> ('p, 'b) XmlReader
     \<Rightarrow> (('p, 'b) XmlReader, ParsingState \<times> ('p, 'b) XmlReader) Cycle option" where
  "readingTokenType_cycle C nextState r =
     (case m_tokenParser r of
        None \<Rightarrow> None
      | Some p \<Rightarrow>
         (case tokenParser_parse C p (m_parsingBuffer r) of
            (res, p1, b1) \<Rightarrow>
              (let r1 = r\<lparr>m_tokenParser := Some p1, m_parsingBuffer := b1\<rparr> in
               case res of
                 Result_NeedMoreData \<Rightarrow> Some (Finish (ParsingState_ReadingTokenType, r1))
               | Result_Success \<Rightarrow>
                  (case tokenFound C p1 of
                     TokenType_Whitespace \<Rightarrow>
                       (let r2 = (if m_documentState r1 = DocumentState_PrologWaitForXmlDeclaration
                                  then r1\<lparr>m_documentState := DocumentState_PrologWaitForDocumentType\<rparr>
                                  else r1)
                        in case setOption C Option_IgnoreLeadingWhitespace p1 of
                             (ok, p2) \<Rightarrow>
                               if ok then Some (AnotherCycle (r2\<lparr>m_tokenParser := Some p2\<rparr>))
                               else Some (Finish (nextState, r2\<lparr>m_tokenParser := Some p2\<rparr>)))
                   | TokenType_ProcessingInstruction \<Rightarrow>
                       (case setTokenParser C (newProcessingInstructionParser C) r1 of
                          (ok, r2) \<Rightarrow>
                            if ok then Some (Finish (ParsingState_ReadingProcessingInstruction, r2))
                            else Some (Finish (nextState, r2)))
                   | TokenType_DocumentType \<Rightarrow>
                       (if m_documentState r1 = DocumentState_PrologWaitForXmlDeclaration
                        then Some (Finish (nextState,
                                   r1\<lparr>m_documentState := DocumentState_PrologWaitForDocumentType\<rparr>))
                        else if m_documentState r1 = DocumentState_PrologWaitForDocumentType
                        then Some (Finish (ParsingState_ReadingDocumentType, r1))
                        else Some (Finish (nextState, r1)))
                   | TokenType_Comment \<Rightarrow>
                       Some (Finish (ParsingState_ReadingComment,
                             if m_documentState r1 = DocumentState_PrologWaitForXmlDeclaration
                             then r1\<lparr>m_documentState := DocumentState_PrologWaitForDocumentType\<rparr>
                             else r1))
                   | TokenType_CData \<Rightarrow>
                       (if m_documentState r1 = DocumentState_Element
                        then Some (Finish (ParsingState_ReadingCData, r1))
                        else Some (Finish (nextState, r1)))
                   | TokenType_StartOfElement \<Rightarrow>
                       Some (Finish (ParsingState_ReadingStartOfElement, r1))
                   | TokenType_EndOfElement \<Rightarrow>
                       (if m_documentState r1 = DocumentState_Element
                        then Some (Finish (ParsingState_ReadingEndOfElement, r1))
                        else Some (Finish (nextState, r1)))
                   | _ \<Rightarrow> Some (Finish (nextState, r1)))
               | Result_Error \<Rightarrow> Some (Finish (nextState, r1)))))"

text \<open>
  The loop calls the token parser again after a whitespace token, so whether it ends
  depends on the token parser: the result is \<open>None\<close> when the call does not return
  (the loop runs forever, or the body dereferences \<open>NULL\<close>).
\<close>

partial_function (option) readingTokenType_loop ::
  "('p, 'b) Collaborators \<Rightarrow> ParsingState \<Rightarrow> ('p, 'b) XmlReader
     \<Rightarrow> (ParsingState \<times> ('p, 'b) XmlReader) option" where
  "readingTokenType_loop C nextState r =
     (case readingTokenType_cycle C nextState r of
        None \<Rightarrow> None
      | Some (AnotherCycle r1) \<Rightarrow> readingTokenType_loop C nextState r1
      | Some (Finish y) \<Rightarrow> Some y)"

declare readingTokenType_loop.simps [code]

definition executeParsingStateReadingTokenType ::
  "('p, 'b) Collaborators \<Rightarrow> ('p, 'b) XmlReader \<Rightarrow> (ParsingState \<times> ('p, 'b) XmlReader) option" where
  "executeParsingStateReadingTokenType C r = readingTokenType_loop C ParsingState_Error r"

text \<open>
  \<open>executeParsingStateReadingProcessingInstruction\<close>: no branch of the loop body asks
  for another cycle (\<open>finishParsing\<close> is set at the top and never reset), so the body
  runs once. \<open>None\<close> is the dereference of a \<open>NULL\<close> token parser.
\<close>

definition executeParsingStateReadingProcessingInstruction ::
  "('p, 'b) Collaborators \<Rightarrow> ('p, 'b) XmlReader \<Rightarrow> (ParsingState \<times> ('p, 'b) XmlReader) option" where
  "executeParsingStateReadingProcessingInstruction C r =
     (case m_tokenParser r of
        None \<Rightarrow> None
      | Some p \<Rightarrow>
         (case tokenParser_parse C p (m_parsingBuffer r) of
            (res, p1, b1) \<Rightarrow>
              (let r1 = r\<lparr>m_tokenParser := Some p1, m_parsingBuffer := b1\<rparr> in
               case res of
                 Result_NeedMoreData \<Rightarrow> Some (ParsingState_ReadingProcessingInstruction, r1)
               | Result_Success \<Rightarrow>
                  (case tokenFound C p1 of
                     TokenType_ProcessingInstruction \<Rightarrow>
                       (if isProcessingInstructionParser C p1 then
                          (let r2 = r1\<lparr>m_processingInstruction := parser_processingInstruction C p1\<rparr>
                           in if processingInstruction_isValid C (m_processingInstruction r2) then
                                Some (ParsingState_ProcessingInstructionRead,
                                      if m_documentState r2 = DocumentState_PrologWaitForXmlDeclaration
                                      then r2\<lparr>m_documentState := DocumentState_PrologWaitForDocumentType\<rparr>
                                      else r2)
                              else
                                Some (ParsingState_Error,
                                      r2\<lparr>m_processingInstruction := ProcessingInstruction_clear\<rparr>))
                        else Some (ParsingState_Error, r1))
                   | TokenType_XmlDeclaration \<Rightarrow>
                       (if m_documentState r1 = DocumentState_PrologWaitForXmlDeclaration then
                          (if isProcessingInstructionParser C p1 then
                             (let r2 = r1\<lparr>m_xmlDeclaration := parser_xmlDeclaration C p1\<rparr>
                              in if xmlDeclaration_isValid C (m_xmlDeclaration r2) then
                                   Some (ParsingState_XmlDeclarationRead,
                                         r2\<lparr>m_documentState := DocumentState_PrologWaitForDocumentType\<rparr>)
                                 else
                                   Some (ParsingState_Error,
                                         r2\<lparr>m_xmlDeclaration := XmlDeclaration_clear\<rparr>))
                           else Some (ParsingState_Error, r1))
                        else Some (ParsingState_Error, r1))
                   | _ \<Rightarrow> Some (ParsingState_Error, r1))
               | Result_Error \<Rightarrow> Some (ParsingState_Error, r1))))"

text \<open>
  The body of the loop of \<open>parse\<close>, ending with the update of \<open>m_parsingState\<close>. The
  argument \<open>result\<close> is the local of that name: only a body that finishes assigns it.
\<close>

definition readsToken :: "ParsingState \<Rightarrow> bool" where
  "readsToken s \<longleftrightarrow>
     s = ParsingState_ReadingProcessingInstruction \<or> s = ParsingState_ReadingDocumentType \<or>
     s = ParsingState_ReadingComment \<or> s = ParsingState_ReadingCData \<or>
     s = ParsingState_ReadingStartOfElement \<or> s = ParsingState_ReadingEndOfElement"

definition parse_cycle ::
  "('p, 'b) Collaborators \<Rightarrow> ParsingResult \<Rightarrow> ('p, 'b) XmlReader
     \<Rightarrow> (('p, 'b) XmlReader, ParsingResult \<times> ('p, 'b) XmlReader) Cycle option" where
  "parse_cycle C result r =
     (case m_parsingState r of
        ParsingState_Idle \<Rightarrow>
          (case setTokenParser C (newTokenTypeParser C Option_None) r of
             (ok, r1) \<Rightarrow>
               if ok then
                 Some (AnotherCycle
                   (r1\<lparr>m_documentState := DocumentState_PrologWaitForXmlDeclaration,
                       m_parsingState := ParsingState_ReadingTokenType\<rparr>))
               else Some (Finish (result, r1\<lparr>m_parsingState := ParsingState_Error\<rparr>)))
      | ParsingState_ReadingTokenType \<Rightarrow>
          (case executeParsingStateReadingTokenType C r of
             None \<Rightarrow> None
           | Some (nextState, r1) \<Rightarrow>
               if nextState = ParsingState_ReadingTokenType then
                 Some (Finish (ParsingResult_NeedMoreData, r1\<lparr>m_parsingState := nextState\<rparr>))
               else if readsToken nextState then
                 Some (AnotherCycle (r1\<lparr>m_parsingState := nextState\<rparr>))
               else Some (Finish (result, r1\<lparr>m_parsingState := ParsingState_Error\<rparr>)))
      | ParsingState_ReadingProcessingInstruction \<Rightarrow>
          (case executeParsingStateReadingProcessingInstruction C r of
             None \<Rightarrow> None
           | Some (nextState, r1) \<Rightarrow>
               if nextState = ParsingState_ReadingProcessingInstruction then
                 Some (Finish (ParsingResult_NeedMoreData, r1\<lparr>m_parsingState := nextState\<rparr>))
               else if nextState = ParsingState_ProcessingInstructionRead then
                 Some (Finish (ParsingResult_ProcessingInstruction,
                               r1\<lparr>m_parsingState := nextState\<rparr>))
               else if nextState = ParsingState_XmlDeclarationRead then
                 Some (Finish (ParsingResult_XmlDeclaration, r1\<lparr>m_parsingState := nextState\<rparr>))
               else Some (Finish (result, r1\<lparr>m_parsingState := ParsingState_Error\<rparr>)))
      | ParsingState_ProcessingInstructionRead \<Rightarrow>
          (case setTokenParser C (newTokenTypeParser C Option_IgnoreLeadingWhitespace) r of
             (ok, r1) \<Rightarrow>
               if ok then Some (AnotherCycle (r1\<lparr>m_parsingState := ParsingState_ReadingTokenType\<rparr>))
               else Some (Finish (result, r1\<lparr>m_parsingState := ParsingState_Error\<rparr>)))
      | ParsingState_XmlDeclarationRead \<Rightarrow>
          (case setTokenParser C (newTokenTypeParser C Option_IgnoreLeadingWhitespace) r of
             (ok, r1) \<Rightarrow>
               if ok then Some (AnotherCycle (r1\<lparr>m_parsingState := ParsingState_ReadingTokenType\<rparr>))
               else Some (Finish (result, r1\<lparr>m_parsingState := ParsingState_Error\<rparr>)))
      | _ \<Rightarrow> Some (Finish (result, r\<lparr>m_parsingState := ParsingState_Error\<rparr>)))"

text \<open>
  Each further cycle of \<open>parse\<close> moves the parsing state down the order measured by
  \<open>parsingState_rank\<close>, so this loop takes at most three cycles.
\<close>

fun parsingState_rank :: "ParsingState \<Rightarrow> nat" where
  "parsingState_rank ParsingState_Idle = 3"
| "parsingState_rank ParsingState_ProcessingInstructionRead = 3"
| "parsingState_rank ParsingState_XmlDeclarationRead = 3"
| "parsingState_rank ParsingState_ReadingTokenType = 2"
| "parsingState_rank ParsingState_Error = 0"
| "parsingState_rank _ = 1"

lemma parse_cycle_rank:
  "parse_cycle C result r = Some (AnotherCycle r1) \<Longrightarrow>
   parsingState_rank (m_parsingState r1) < parsingState_rank (m_parsingState r)"
  unfolding parse_cycle_def setTokenParser_def readsToken_def
  by (cases "m_parsingState r") (auto split: option.splits if_splits)

function parse_loop ::
  "('p, 'b) Collaborators \<Rightarrow> ParsingResult \<Rightarrow> ('p, 'b) XmlReader
     \<Rightarrow> (ParsingResult \<times> ('p, 'b) XmlReader) option" where
  "parse_loop C result r =
     (case parse_cycle C result r of
        None \<Rightarrow> None
      | Some (AnotherCycle r1) \<Rightarrow> parse_loop C result r1
      | Some (Finish y) \<Rightarrow> Some y)"
  by pat_completeness auto
termination
  by (relation "measure (\<lambda>(C, result, r). parsingState_rank (m_parsingState r))")
     (auto dest: parse_cycle_rank)

declare parse_loop.simps [simp del]

definition parse ::
  "('p, 'b) Collaborators \<Rightarrow> ('p, 'b) XmlReader
     \<Rightarrow> (ParsingResult \<times> ('p, 'b) XmlReader) option" where
  "parse C r =
     (case parse_loop C ParsingResult_Error r of
        None \<Rightarrow> None
      | Some (result, r1) \<Rightarrow> Some (result, r1\<lparr>m_lastParsingResult := result\<rparr>))"

definition phaseStep :: "DocumentState \<Rightarrow> DocumentState \<Rightarrow> bool" where
  "phaseStep d d' \<longleftrightarrow>
     d' = d \<or> (d = DocumentState_PrologWaitForXmlDeclaration \<and>
               d' = DocumentState_PrologWaitForDocumentType)"

lemma phaseStep_refl [simp]: "phaseStep d d"
  by (simp add: phaseStep_def)

lemma phaseStep_trans: "phaseStep a b \<Longrightarrow> phaseStep b c \<Longrightarrow> phaseStep a c"
  by (auto simp: phaseStep_def)

lemma phaseStep_start:
  "phaseStep d DocumentState_PrologWaitForXmlDeclaration \<Longrightarrow>
   d = DocumentState_PrologWaitForXmlDeclaration"
  by (auto simp: phaseStep_def)

lemma phaseStep_later:
  "phaseStep d d' \<Longrightarrow> d \<noteq> DocumentState_PrologWaitForXmlDeclaration \<Longrightarrow> d' = d"
  by (auto simp: phaseStep_def)

definition startPhase :: "('p, 'b) XmlReader \<Rightarrow> DocumentState" where
  "startPhase r =
     (if m_parsingState r = ParsingState_Idle then DocumentState_PrologWaitForXmlDeclaration
      else m_documentState r)"

subsection \<open>Reasoning about the two loops\<close>

text \<open>
  A property of a loop follows from an invariant of its cycles: it holds before the first
  cycle, every cycle that asks for another keeps it, and a cycle that finishes under it
  establishes the property.
\<close>

lemma readingTokenType_loop_rule:
  assumes run: "readingTokenType_loop C ns r = Some y"
    and init: "I r"
    and another: "\<And>r r1. I r \<Longrightarrow> readingTokenType_cycle C ns r = Some (AnotherCycle r1) \<Longrightarrow> I r1"
    and finish: "\<And>r y. I r \<Longrightarrow> readingTokenType_cycle C ns r = Some (Finish y) \<Longrightarrow> Q y"
  shows "Q y"
proof -
  have "C = C \<longrightarrow> ns = ns \<longrightarrow> I r \<longrightarrow> Q y"
  proof (rule readingTokenType_loop.raw_induct
      [where P = "\<lambda>C' ns' r y. C' = C \<longrightarrow> ns' = ns \<longrightarrow> I r \<longrightarrow> Q y", OF _ run])
    fix f :: "('a, 'b) Collaborators \<Rightarrow> ParsingState \<Rightarrow> ('a, 'b) XmlReader
       \<Rightarrow> (ParsingState \<times> ('a, 'b) XmlReader) option"
    fix C' ns' r y
    assume IH: "\<And>C' ns' r y. f C' ns' r = Some y \<Longrightarrow> C' = C \<longrightarrow> ns' = ns \<longrightarrow> I r \<longrightarrow> Q y"
    assume body: "(case readingTokenType_cycle C' ns' r of
          None \<Rightarrow> None
        | Some (AnotherCycle r1) \<Rightarrow> f C' ns' r1
        | Some (Finish y) \<Rightarrow> Some y) = Some y"
    show "C' = C \<longrightarrow> ns' = ns \<longrightarrow> I r \<longrightarrow> Q y"
    proof (intro impI)
      assume eq: "C' = C" "ns' = ns" and i: "I r"
      show "Q y"
      proof (cases "readingTokenType_cycle C ns r")
        case None
        with body eq show ?thesis by simp
      next
        case (Some c)
        show ?thesis
        proof (cases c)
          case (AnotherCycle r1)
          with Some body eq have "f C ns r1 = Some y" by simp
          from IH[OF this] another[OF i Some[unfolded AnotherCycle]] show ?thesis by simp
        next
          case (Finish z)
          with Some body eq have "y = z" by simp
          with finish[OF i Some[unfolded Finish]] show ?thesis by simp
        qed
      qed
    qed
  qed
  with init show ?thesis by simp
qed

lemma parse_loop_rule:
  assumes run: "parse_loop C res r = Some y"
    and init: "I r"
    and another: "\<And>r r1. I r \<Longrightarrow> parse_cycle C res r = Some (AnotherCycle r1) \<Longrightarrow> I r1"
    and finish: "\<And>r y. I r \<Longrightarrow> parse_cycle C res r = Some (Finish y) \<Longrightarrow> Q y"
  shows "Q y"
proof -
  have "parse_loop C' res' r = Some y \<Longrightarrow> C' = C \<Longrightarrow> res' = res \<Longrightarrow> I r \<Longrightarrow> Q y"
    for C' res' r
  proof (induction C' res' r rule: parse_loop.induct)
    case (1 C' res' r)
    note eq = "1.prems"(2,3) and i = "1.prems"(4)
    from "1.prems"(1) eq have run': "parse_loop C res r = Some y" by simp
    show ?case
    proof (cases "parse_cycle C res r")
      case None
      with run' show ?thesis by (simp add: parse_loop.simps[of C res r])
    next
      case (Some c)
      show ?thesis
      proof (cases c)
        case (AnotherCycle r1)
        with Some run' have l: "parse_loop C' res' r1 = Some y"
          by (simp add: parse_loop.simps[of C res r] eq)
        from Some AnotherCycle eq have c: "parse_cycle C' res' r = Some c" "c = AnotherCycle r1"
          by simp_all
        from "1.IH"[OF c l eq] another[OF i Some[unfolded AnotherCycle]]
        show ?thesis by simp
      next
        case (Finish z)
        with Some run' have "y = z" by (simp add: parse_loop.simps[of C res r])
        with finish[OF i Some[unfolded Finish]] show ?thesis by simp
      qed
    qed
  qed
  from this[OF run refl refl init] show ?thesis .
qed


lemma readingTokenType_cycle_another:
  assumes "readingTokenType_cycle C ns r = Some (AnotherCycle r1)"
  shows "m_parsingState r1 = m_parsingState r"
    and "m_lastParsingResult r1 = m_lastParsingResult r"
    and "m_xmlDeclaration r1 = m_xmlDeclaration r"
    and "m_processingInstruction r1 = m_processingInstruction r"
    and "m_documentState r1 =
           (if m_documentState r = DocumentState_PrologWaitForXmlDeclaration
            then DocumentState_PrologWaitForDocumentType else m_documentState r)"
  using assms unfolding readingTokenType_cycle_def setTokenParser_def Let_def
  by (auto split: option.splits prod.splits Result.splits TokenType.splits if_splits)

lemma readingTokenType_cycle_finish:
  assumes "readingTokenType_cycle C ns r = Some (Finish (ns1, r1))"
  shows "m_parsingState r1 = m_parsingState r"
    and "m_lastParsingResult r1 = m_lastParsingResult r"
    and "m_xmlDeclaration r1 = m_xmlDeclaration r"
    and "m_processingInstruction r1 = m_processingInstruction r"
    and "phaseStep (m_documentState r) (m_documentState r1)"
    and "ns1 = ns \<or> ns1 = ParsingState_ReadingTokenType \<or> readsToken ns1"
  using assms unfolding readingTokenType_cycle_def setTokenParser_def Let_def phaseStep_def readsToken_def
  by (simp_all split: option.splits prod.splits Result.splits TokenType.splits if_splits) auto

definition sameTokens :: "('p, 'b) XmlReader \<Rightarrow> ('p, 'b) XmlReader \<Rightarrow> bool" where
  "sameTokens r r1 \<longleftrightarrow>
     m_lastParsingResult r1 = m_lastParsingResult r \<and>
     m_xmlDeclaration r1 = m_xmlDeclaration r \<and>
     m_processingInstruction r1 = m_processingInstruction r"

lemma readingTokenType_loop_props:
  assumes "readingTokenType_loop C ns r = Some (ns1, r1)"
  shows "m_parsingState r1 = m_parsingState r"
    and "sameTokens r r1"
    and "phaseStep (m_documentState r) (m_documentState r1)"
    and "ns1 = ns \<or> ns1 = ParsingState_ReadingTokenType \<or> readsToken ns1"
proof -
  let ?I = "\<lambda>r'. m_parsingState r' = m_parsingState r \<and> sameTokens r r' \<and>
                 phaseStep (m_documentState r) (m_documentState r')"
  have "?I (snd (ns1, r1)) \<and>
        (fst (ns1, r1) = ns \<or> fst (ns1, r1) = ParsingState_ReadingTokenType \<or>
         readsToken (fst (ns1, r1)))"
  proof (rule readingTokenType_loop_rule[OF assms, where I = ?I])
    show "?I r" by (simp add: sameTokens_def)
  next
    fix r' r1' assume "?I r'" "readingTokenType_cycle C ns r' = Some (AnotherCycle r1')"
    from this(1) readingTokenType_cycle_another[OF this(2)] show "?I r1'"
      by (auto simp: sameTokens_def phaseStep_def)
  next
    fix r' y assume i: "?I r'" and c: "readingTokenType_cycle C ns r' = Some (Finish y)"
    obtain a b where y: "y = (a, b)" by (cases y)
    from i readingTokenType_cycle_finish[OF c[unfolded y]]
    show "?I (snd y) \<and> (fst y = ns \<or> fst y = ParsingState_ReadingTokenType \<or> readsToken (fst y))"
      unfolding y by (auto simp: sameTokens_def dest: phaseStep_trans)
  qed
  then show "m_parsingState r1 = m_parsingState r"
    and "sameTokens r r1"
    and "phaseStep (m_documentState r) (m_documentState r1)"
    and "ns1 = ns \<or> ns1 = ParsingState_ReadingTokenType \<or> readsToken ns1"
    by simp_all
qed

lemma executeParsingStateReadingProcessingInstruction_props:
  assumes "executeParsingStateReadingProcessingInstruction C r = Some (ns1, r1)"
  shows "m_parsingState r1 = m_parsingState r"
    and "m_lastParsingResult r1 = m_lastParsingResult r"
    and "phaseStep (m_documentState r) (m_documentState r1)"
    and "ns1 = ParsingState_XmlDeclarationRead \<Longrightarrow>
           m_documentState r = DocumentState_PrologWaitForXmlDeclaration \<and>
           m_documentState r1 = DocumentState_PrologWaitForDocumentType"
    and "ns1 = ParsingState_ProcessingInstructionRead \<Longrightarrow>
           m_documentState r1 \<noteq> DocumentState_PrologWaitForXmlDeclaration"
    and "ns1 \<noteq> ParsingState_XmlDeclarationRead \<Longrightarrow> ns1 \<noteq> ParsingState_Error \<Longrightarrow>
           m_xmlDeclaration r1 = m_xmlDeclaration r"
    and "ns1 \<noteq> ParsingState_ProcessingInstructionRead \<Longrightarrow> ns1 \<noteq> ParsingState_Error \<Longrightarrow>
           m_processingInstruction r1 = m_processingInstruction r"
  using assms unfolding executeParsingStateReadingProcessingInstruction_def Let_def phaseStep_def
  by (auto split: option.splits prod.splits Result.splits TokenType.splits if_splits)

text \<open>The result a finishing cycle of \<open>parse\<close> returns, read off the parsing state it leaves.\<close>

fun finalResult :: "ParsingResult \<Rightarrow> ParsingState \<Rightarrow> ParsingResult option" where
  "finalResult res ParsingState_Error = Some res"
| "finalResult res ParsingState_ReadingTokenType = Some ParsingResult_NeedMoreData"
| "finalResult res ParsingState_ReadingProcessingInstruction = Some ParsingResult_NeedMoreData"
| "finalResult res ParsingState_ProcessingInstructionRead = Some ParsingResult_ProcessingInstruction"
| "finalResult res ParsingState_XmlDeclarationRead = Some ParsingResult_XmlDeclaration"
| "finalResult res _ = None"

lemma parse_cycle_another:
  assumes "parse_cycle C res r = Some (AnotherCycle r1)"
  shows "m_parsingState r1 \<noteq> ParsingState_Idle"
    and "sameTokens r r1"
    and "phaseStep (startPhase r) (m_documentState r1)"
proof -
  have "m_parsingState r1 \<noteq> ParsingState_Idle \<and> sameTokens r r1 \<and>
        phaseStep (startPhase r) (m_documentState r1)"
  proof (cases "m_parsingState r = ParsingState_ReadingTokenType")
    case True
    with assms obtain ns r' where
      e: "readingTokenType_loop C ParsingState_Error r = Some (ns, r')"
      and r1: "r1 = r'\<lparr>m_parsingState := ns\<rparr>" and ns: "readsToken ns"
      by (auto simp: parse_cycle_def executeParsingStateReadingTokenType_def
          split: option.splits if_splits)
    from readingTokenType_loop_props[OF e] r1 ns True show ?thesis
      by (auto simp: startPhase_def readsToken_def sameTokens_def)
  next
    case False
    with assms show ?thesis
      unfolding parse_cycle_def setTokenParser_def startPhase_def sameTokens_def
      by (cases "m_parsingState r") (auto split: option.splits if_splits)
  qed
  then show "m_parsingState r1 \<noteq> ParsingState_Idle"
    and "sameTokens r r1"
    and "phaseStep (startPhase r) (m_documentState r1)" by simp_all
qed

lemma parse_cycle_finish_result:
  assumes "parse_cycle C res r = Some (Finish (res1, r1))"
  shows "finalResult res (m_parsingState r1) = Some res1"
    and "m_lastParsingResult r1 = m_lastParsingResult r"
proof -
  have "finalResult res (m_parsingState r1) = Some res1 \<and>
        m_lastParsingResult r1 = m_lastParsingResult r"
  proof (cases "m_parsingState r = ParsingState_ReadingTokenType")
    case True
    with assms obtain ns r' where
      e: "readingTokenType_loop C ParsingState_Error r = Some (ns, r')"
      and y: "(res1, r1) = (if ns = ParsingState_ReadingTokenType
                   then (ParsingResult_NeedMoreData, r'\<lparr>m_parsingState := ns\<rparr>)
                   else (res, r'\<lparr>m_parsingState := ParsingState_Error\<rparr>))"
      by (auto simp: parse_cycle_def executeParsingStateReadingTokenType_def
          split: option.splits if_splits)
    from readingTokenType_loop_props(2)[OF e] y show ?thesis
      by (auto simp: sameTokens_def split: if_splits)
  next
    case False
    note nt = this
    show ?thesis
    proof (cases "m_parsingState r = ParsingState_ReadingProcessingInstruction")
      case True
      with assms obtain ns r' where
        e: "executeParsingStateReadingProcessingInstruction C r = Some (ns, r')"
        and y: "(res1, r1) = (if ns = ParsingState_ReadingProcessingInstruction
                   then (ParsingResult_NeedMoreData, r'\<lparr>m_parsingState := ns\<rparr>)
                   else if ns = ParsingState_ProcessingInstructionRead
                   then (ParsingResult_ProcessingInstruction, r'\<lparr>m_parsingState := ns\<rparr>)
                   else if ns = ParsingState_XmlDeclarationRead
                   then (ParsingResult_XmlDeclaration, r'\<lparr>m_parsingState := ns\<rparr>)
                   else (res, r'\<lparr>m_parsingState := ParsingState_Error\<rparr>))"
        by (auto simp: parse_cycle_def split: option.splits if_splits)
      from executeParsingStateReadingProcessingInstruction_props(2)[OF e] y show ?thesis
        by (auto split: if_splits)
    next
      case False
      with nt assms show ?thesis
        unfolding parse_cycle_def setTokenParser_def
        by (cases "m_parsingState r") (auto split: option.splits if_splits)
    qed
  qed
  then show "finalResult res (m_parsingState r1) = Some res1"
    and "m_lastParsingResult r1 = m_lastParsingResult r" by simp_all
qed


lemma parse_cycle_finish_phase:
  assumes "parse_cycle C res r = Some (Finish (res1, r1))"
  shows "m_parsingState r \<noteq> ParsingState_Idle \<Longrightarrow>
           phaseStep (m_documentState r) (m_documentState r1)"
    and "m_parsingState r1 = ParsingState_XmlDeclarationRead \<Longrightarrow>
           m_documentState r = DocumentState_PrologWaitForXmlDeclaration \<and>
           m_documentState r1 = DocumentState_PrologWaitForDocumentType"
    and "m_parsingState r1 = ParsingState_ProcessingInstructionRead \<Longrightarrow>
           m_documentState r1 \<noteq> DocumentState_PrologWaitForXmlDeclaration"
    and "m_parsingState r1 \<noteq> ParsingState_Error \<Longrightarrow>
           m_parsingState r1 \<noteq> ParsingState_XmlDeclarationRead \<Longrightarrow>
           m_xmlDeclaration r1 = m_xmlDeclaration r"
    and "m_parsingState r1 \<noteq> ParsingState_Error \<Longrightarrow>
           m_parsingState r1 \<noteq> ParsingState_ProcessingInstructionRead \<Longrightarrow>
           m_processingInstruction r1 = m_processingInstruction r"
    and "m_parsingState r1 \<noteq> ParsingState_Error \<Longrightarrow> m_parsingState r \<noteq> ParsingState_Idle"
proof -
  have "(m_parsingState r \<noteq> ParsingState_Idle \<longrightarrow>
           phaseStep (m_documentState r) (m_documentState r1)) \<and>
        (m_parsingState r1 = ParsingState_XmlDeclarationRead \<longrightarrow>
           m_documentState r = DocumentState_PrologWaitForXmlDeclaration \<and>
           m_documentState r1 = DocumentState_PrologWaitForDocumentType) \<and>
        (m_parsingState r1 = ParsingState_ProcessingInstructionRead \<longrightarrow>
           m_documentState r1 \<noteq> DocumentState_PrologWaitForXmlDeclaration) \<and>
        (m_parsingState r1 \<noteq> ParsingState_Error \<longrightarrow>
           m_parsingState r1 \<noteq> ParsingState_XmlDeclarationRead \<longrightarrow>
           m_xmlDeclaration r1 = m_xmlDeclaration r) \<and>
        (m_parsingState r1 \<noteq> ParsingState_Error \<longrightarrow>
           m_parsingState r1 \<noteq> ParsingState_ProcessingInstructionRead \<longrightarrow>
           m_processingInstruction r1 = m_processingInstruction r) \<and>
        (m_parsingState r1 \<noteq> ParsingState_Error \<longrightarrow> m_parsingState r \<noteq> ParsingState_Idle)"
  proof (cases "m_parsingState r = ParsingState_ReadingTokenType")
    case True
    with assms obtain ns r' where
      e: "readingTokenType_loop C ParsingState_Error r = Some (ns, r')"
      and y: "r1 = (if ns = ParsingState_ReadingTokenType
                   then r'\<lparr>m_parsingState := ns\<rparr>
                   else r'\<lparr>m_parsingState := ParsingState_Error\<rparr>)"
      by (auto simp: parse_cycle_def executeParsingStateReadingTokenType_def
          split: option.splits if_splits)
    from readingTokenType_loop_props(2,3)[OF e] y True show ?thesis
      by (auto simp: sameTokens_def split: if_splits)
  next
    case False
    note nt = this
    show ?thesis
    proof (cases "m_parsingState r = ParsingState_ReadingProcessingInstruction")
      case True
      with assms obtain ns r' where
        e: "executeParsingStateReadingProcessingInstruction C r = Some (ns, r')"
        and y: "r1 = (if ns = ParsingState_ReadingProcessingInstruction \<or>
                         ns = ParsingState_ProcessingInstructionRead \<or>
                         ns = ParsingState_XmlDeclarationRead
                   then r'\<lparr>m_parsingState := ns\<rparr>
                   else r'\<lparr>m_parsingState := ParsingState_Error\<rparr>)"
        by (auto simp: parse_cycle_def split: option.splits if_splits)
      from executeParsingStateReadingProcessingInstruction_props(3-7)[OF e] y True show ?thesis
        by (auto split: if_splits)
    next
      case False
      with nt assms show ?thesis
        unfolding parse_cycle_def setTokenParser_def
        by (cases "m_parsingState r") (auto split: option.splits if_splits)
    qed
  qed
  then show "m_parsingState r \<noteq> ParsingState_Idle \<Longrightarrow>
           phaseStep (m_documentState r) (m_documentState r1)"
    and "m_parsingState r1 = ParsingState_XmlDeclarationRead \<Longrightarrow>
           m_documentState r = DocumentState_PrologWaitForXmlDeclaration \<and>
           m_documentState r1 = DocumentState_PrologWaitForDocumentType"
    and "m_parsingState r1 = ParsingState_ProcessingInstructionRead \<Longrightarrow>
           m_documentState r1 \<noteq> DocumentState_PrologWaitForXmlDeclaration"
    and "m_parsingState r1 \<noteq> ParsingState_Error \<Longrightarrow>
           m_parsingState r1 \<noteq> ParsingState_XmlDeclarationRead \<Longrightarrow>
           m_xmlDeclaration r1 = m_xmlDeclaration r"
    and "m_parsingState r1 \<noteq> ParsingState_Error \<Longrightarrow>
           m_parsingState r1 \<noteq> ParsingState_ProcessingInstructionRead \<Longrightarrow>
           m_processingInstruction r1 = m_processingInstruction r"
    and "m_parsingState r1 \<noteq> ParsingState_Error \<Longrightarrow> m_parsingState r \<noteq> ParsingState_Idle"
    by simp_all
qed

lemma parse_loop_result:
  assumes "parse_loop C res r = Some (res1, r1)"
  shows "finalResult res (m_parsingState r1) = Some res1"
    and "m_lastParsingResult r1 = m_lastParsingResult r"
proof -
  let ?I = "\<lambda>r'. m_lastParsingResult r' = m_lastParsingResult r"
  have "finalResult res (m_parsingState (snd (res1, r1))) = Some (fst (res1, r1)) \<and>
        ?I (snd (res1, r1))"
  proof (rule parse_loop_rule[OF assms, where I = ?I])
    show "?I r" by simp
  next
    fix r' r1' assume "?I r'" "parse_cycle C res r' = Some (AnotherCycle r1')"
    from this(1) parse_cycle_another(2)[OF this(2)] show "?I r1'"
      by (simp add: sameTokens_def)
  next
    fix r' y assume i: "?I r'" and c: "parse_cycle C res r' = Some (Finish y)"
    obtain a b where y: "y = (a, b)" by (cases y)
    from i parse_cycle_finish_result[OF c[unfolded y]]
    show "finalResult res (m_parsingState (snd y)) = Some (fst y) \<and> ?I (snd y)"
      unfolding y by simp
  qed
  then show "finalResult res (m_parsingState r1) = Some res1"
    and "m_lastParsingResult r1 = m_lastParsingResult r" by simp_all
qed

lemma parse_loop_phase:
  assumes "parse_loop C res r = Some (res1, r1)"
  shows "m_parsingState r1 \<noteq> ParsingState_Error \<Longrightarrow>
           phaseStep (startPhase r) (m_documentState r1)"
    and "m_parsingState r \<noteq> ParsingState_Idle \<Longrightarrow>
           phaseStep (m_documentState r) (m_documentState r1)"
    and "m_parsingState r1 = ParsingState_XmlDeclarationRead \<Longrightarrow>
           startPhase r = DocumentState_PrologWaitForXmlDeclaration \<and>
           m_documentState r1 = DocumentState_PrologWaitForDocumentType"
    and "m_parsingState r1 = ParsingState_ProcessingInstructionRead \<Longrightarrow>
           m_documentState r1 \<noteq> DocumentState_PrologWaitForXmlDeclaration"
proof -
  let ?I = "\<lambda>r'. phaseStep (startPhase r) (startPhase r') \<and>
                 (m_parsingState r \<noteq> ParsingState_Idle \<longrightarrow> m_parsingState r' \<noteq> ParsingState_Idle)"
  let ?Q = "\<lambda>y. (m_parsingState (snd y) \<noteq> ParsingState_Error \<longrightarrow>
                    phaseStep (startPhase r) (m_documentState (snd y))) \<and>
                 (m_parsingState r \<noteq> ParsingState_Idle \<longrightarrow>
                    phaseStep (m_documentState r) (m_documentState (snd y))) \<and>
                 (m_parsingState (snd y) = ParsingState_XmlDeclarationRead \<longrightarrow>
                    startPhase r = DocumentState_PrologWaitForXmlDeclaration \<and>
                    m_documentState (snd y) = DocumentState_PrologWaitForDocumentType) \<and>
                 (m_parsingState (snd y) = ParsingState_ProcessingInstructionRead \<longrightarrow>
                    m_documentState (snd y) \<noteq> DocumentState_PrologWaitForXmlDeclaration)"
  have "?Q (res1, r1)"
  proof (rule parse_loop_rule[OF assms, where I = ?I])
    show "?I r" by simp
  next
    fix r' r1' assume i: "?I r'" and c: "parse_cycle C res r' = Some (AnotherCycle r1')"
    from parse_cycle_another(1)[OF c] have s: "startPhase r1' = m_documentState r1'"
      by (simp add: startPhase_def)
    from i parse_cycle_another(1,3)[OF c] s show "?I r1'"
      by (auto dest: phaseStep_trans)
  next
    fix r' y assume i: "?I r'" and c: "parse_cycle C res r' = Some (Finish y)"
    obtain a b where y: "y = (a, b)" by (cases y)
    note f = parse_cycle_finish_phase[OF c[unfolded y]]
    have 1: "m_parsingState b \<noteq> ParsingState_Error \<longrightarrow>
               phaseStep (startPhase r) (m_documentState b)"
    proof
      assume ne: "m_parsingState b \<noteq> ParsingState_Error"
      from f(6)[OF ne] have ni: "m_parsingState r' \<noteq> ParsingState_Idle" .
      then have "startPhase r' = m_documentState r'" by (simp add: startPhase_def)
      with i f(1)[OF ni] show "phaseStep (startPhase r) (m_documentState b)"
        by (auto dest: phaseStep_trans)
    qed
    have 2: "m_parsingState r \<noteq> ParsingState_Idle \<longrightarrow>
               phaseStep (m_documentState r) (m_documentState b)"
    proof
      assume n: "m_parsingState r \<noteq> ParsingState_Idle"
      with i have ni: "m_parsingState r' \<noteq> ParsingState_Idle" by simp
      with n have "startPhase r' = m_documentState r'" "startPhase r = m_documentState r"
        by (simp_all add: startPhase_def)
      with i f(1)[OF ni] show "phaseStep (m_documentState r) (m_documentState b)"
        by (auto dest: phaseStep_trans)
    qed
    have 3: "m_parsingState b = ParsingState_XmlDeclarationRead \<longrightarrow>
                    startPhase r = DocumentState_PrologWaitForXmlDeclaration \<and>
                    m_documentState b = DocumentState_PrologWaitForDocumentType"
    proof
      assume x: "m_parsingState b = ParsingState_XmlDeclarationRead"
      then have ni: "m_parsingState r' \<noteq> ParsingState_Idle" using f(6) by simp
      from f(2)[OF x] ni have "startPhase r' = DocumentState_PrologWaitForXmlDeclaration"
        by (simp add: startPhase_def)
      with i have "startPhase r = DocumentState_PrologWaitForXmlDeclaration"
        by (auto dest: phaseStep_start)
      with f(2)[OF x] show "startPhase r = DocumentState_PrologWaitForXmlDeclaration \<and>
                    m_documentState b = DocumentState_PrologWaitForDocumentType" by simp
    qed
    from 1 2 3 f(3) show "?Q y" unfolding y by simp
  qed
  then show "m_parsingState r1 \<noteq> ParsingState_Error \<Longrightarrow>
           phaseStep (startPhase r) (m_documentState r1)"
    and "m_parsingState r \<noteq> ParsingState_Idle \<Longrightarrow>
           phaseStep (m_documentState r) (m_documentState r1)"
    and "m_parsingState r1 = ParsingState_XmlDeclarationRead \<Longrightarrow>
           startPhase r = DocumentState_PrologWaitForXmlDeclaration \<and>
           m_documentState r1 = DocumentState_PrologWaitForDocumentType"
    and "m_parsingState r1 = ParsingState_ProcessingInstructionRead \<Longrightarrow>
           m_documentState r1 \<noteq> DocumentState_PrologWaitForXmlDeclaration"
    by simp_all
qed

lemma parse_loop_tokens:
  assumes "parse_loop C res r = Some (res1, r1)"
  shows "m_parsingState r1 \<noteq> ParsingState_Error \<Longrightarrow>
           m_parsingState r1 \<noteq> ParsingState_XmlDeclarationRead \<Longrightarrow>
           m_xmlDeclaration r1 = m_xmlDeclaration r"
    and "m_parsingState r1 \<noteq> ParsingState_Error \<Longrightarrow>
           m_parsingState r1 \<noteq> ParsingState_ProcessingInstructionRead \<Longrightarrow>
           m_processingInstruction r1 = m_processingInstruction r"
proof -
  let ?I = "\<lambda>r'. sameTokens r r'"
  let ?Q = "\<lambda>y. (m_parsingState (snd y) \<noteq> ParsingState_Error \<longrightarrow>
                    m_parsingState (snd y) \<noteq> ParsingState_XmlDeclarationRead \<longrightarrow>
                    m_xmlDeclaration (snd y) = m_xmlDeclaration r) \<and>
                 (m_parsingState (snd y) \<noteq> ParsingState_Error \<longrightarrow>
                    m_parsingState (snd y) \<noteq> ParsingState_ProcessingInstructionRead \<longrightarrow>
                    m_processingInstruction (snd y) = m_processingInstruction r)"
  have "?Q (res1, r1)"
  proof (rule parse_loop_rule[OF assms, where I = ?I])
    show "?I r" by (simp add: sameTokens_def)
  next
    fix r' r1' assume "?I r'" "parse_cycle C res r' = Some (AnotherCycle r1')"
    from this(1) parse_cycle_another(2)[OF this(2)] show "?I r1'"
      by (simp add: sameTokens_def)
  next
    fix r' y assume i: "?I r'" and c: "parse_cycle C res r' = Some (Finish y)"
    obtain a b where y: "y = (a, b)" by (cases y)
    from i parse_cycle_finish_phase(4,5)[OF c[unfolded y]]
    show "?Q y" unfolding y by (simp add: sameTokens_def)
  qed
  then show "m_parsingState r1 \<noteq> ParsingState_Error \<Longrightarrow>
           m_parsingState r1 \<noteq> ParsingState_XmlDeclarationRead \<Longrightarrow>
           m_xmlDeclaration r1 = m_xmlDeclaration r"
    and "m_parsingState r1 \<noteq> ParsingState_Error \<Longrightarrow>
           m_parsingState r1 \<noteq> ParsingState_ProcessingInstructionRead \<Longrightarrow>
           m_processingInstruction r1 = m_processingInstruction r"
    by simp_all
qed

lemma finalResult_Error:
  "finalResult ParsingResult_Error s = Some ParsingResult_Error \<Longrightarrow> s = ParsingState_Error"
  by (cases s) simp_all

lemma finalResult_token:
  "finalResult ParsingResult_Error s = Some res \<Longrightarrow> res \<noteq> ParsingResult_Error \<Longrightarrow>
   res \<noteq> ParsingResult_NeedMoreData \<Longrightarrow>
   (res = ParsingResult_ProcessingInstruction \<and> s = ParsingState_ProcessingInstructionRead) \<or>
   (res = ParsingResult_XmlDeclaration \<and> s = ParsingState_XmlDeclarationRead)"
  by (cases s) auto

lemma finalResult_not_Idle: "finalResult res s = Some res1 \<Longrightarrow> s \<noteq> ParsingState_Idle"
  by (cases s) simp_all

lemma parse_SomeD:
  assumes "parse C r = Some (res, r1)"
  obtains r' where "parse_loop C ParsingResult_Error r = Some (res, r')"
    and "r1 = r'\<lparr>m_lastParsingResult := res\<rparr>"
  using assms by (auto simp: parse_def split: option.splits)

lemma parse_result:
  assumes "parse C r = Some (res, r1)"
  shows "finalResult ParsingResult_Error (m_parsingState r1) = Some res"
    and "m_lastParsingResult r1 = res"
    and "m_parsingState r1 \<noteq> ParsingState_Idle"
proof -
  from assms obtain r' where l: "parse_loop C ParsingResult_Error r = Some (res, r')"
    and r1: "r1 = r'\<lparr>m_lastParsingResult := res\<rparr>" by (rule parse_SomeD)
  from parse_loop_result(1)[OF l] r1
  show "finalResult ParsingResult_Error (m_parsingState r1) = Some res" by simp
  then show "m_parsingState r1 \<noteq> ParsingState_Idle" by (rule finalResult_not_Idle)
  from r1 show "m_lastParsingResult r1 = res" by simp
qed

lemma parse_phase:
  assumes "parse C r = Some (res, r1)"
  shows "m_parsingState r \<noteq> ParsingState_Idle \<Longrightarrow>
           phaseStep (m_documentState r) (m_documentState r1)"
    and "res = ParsingResult_XmlDeclaration \<Longrightarrow>
           startPhase r = DocumentState_PrologWaitForXmlDeclaration"
    and "res \<noteq> ParsingResult_Error \<Longrightarrow> res \<noteq> ParsingResult_NeedMoreData \<Longrightarrow>
           m_documentState r1 \<noteq> DocumentState_PrologWaitForXmlDeclaration"
    and "res \<noteq> ParsingResult_Error \<Longrightarrow> phaseStep (startPhase r) (m_documentState r1)"
proof -
  from assms obtain r' where l: "parse_loop C ParsingResult_Error r = Some (res, r')"
    and r1: "r1 = r'\<lparr>m_lastParsingResult := res\<rparr>" by (rule parse_SomeD)
  note fr = parse_loop_result(1)[OF l]
  note ph = parse_loop_phase[OF l]
  from ph(2) r1 show "m_parsingState r \<noteq> ParsingState_Idle \<Longrightarrow>
           phaseStep (m_documentState r) (m_documentState r1)" by simp
  show "startPhase r = DocumentState_PrologWaitForXmlDeclaration"
    if "res = ParsingResult_XmlDeclaration"
  proof -
    from fr that have "m_parsingState r' = ParsingState_XmlDeclarationRead"
      by (cases "m_parsingState r'") simp_all
    with ph(3) show ?thesis by simp
  qed
  show "m_documentState r1 \<noteq> DocumentState_PrologWaitForXmlDeclaration"
    if "res \<noteq> ParsingResult_Error" "res \<noteq> ParsingResult_NeedMoreData"
  proof -
    from finalResult_token[OF fr that] ph(3,4) r1 show ?thesis by auto
  qed
  show "phaseStep (startPhase r) (m_documentState r1)" if "res \<noteq> ParsingResult_Error"
  proof -
    from fr that have "m_parsingState r' \<noteq> ParsingState_Error" by auto
    from ph(1)[OF this] r1 show ?thesis by simp
  qed
qed

lemma parse_tokens:
  assumes "parse C r = Some (res, r1)" and "res \<noteq> ParsingResult_Error"
  shows "res \<noteq> ParsingResult_XmlDeclaration \<Longrightarrow> m_xmlDeclaration r1 = m_xmlDeclaration r"
    and "res \<noteq> ParsingResult_ProcessingInstruction \<Longrightarrow>
           m_processingInstruction r1 = m_processingInstruction r"
proof -
  from assms(1) obtain r' where l: "parse_loop C ParsingResult_Error r = Some (res, r')"
    and r1: "r1 = r'\<lparr>m_lastParsingResult := res\<rparr>" by (rule parse_SomeD)
  note fr = parse_loop_result(1)[OF l]
  from fr assms(2) have ne: "m_parsingState r' \<noteq> ParsingState_Error" by auto
  show "m_xmlDeclaration r1 = m_xmlDeclaration r" if "res \<noteq> ParsingResult_XmlDeclaration"
  proof -
    from fr that have "m_parsingState r' \<noteq> ParsingState_XmlDeclarationRead" by auto
    from parse_loop_tokens(1)[OF l ne this] r1 show ?thesis by simp
  qed
  show "m_processingInstruction r1 = m_processingInstruction r"
    if "res \<noteq> ParsingResult_ProcessingInstruction"
  proof -
    from fr that have "m_parsingState r' \<noteq> ParsingState_ProcessingInstructionRead" by auto
    from parse_loop_tokens(2)[OF l ne this] r1 show ?thesis by simp
  qed
qed

lemma parse_in_Error:
  "m_parsingState r = ParsingState_Error \<Longrightarrow>
   parse C r = Some (ParsingResult_Error, r\<lparr>m_parsingState := ParsingState_Error,
                                            m_lastParsingResult := ParsingResult_Error\<rparr>)"
  by (simp add: parse_def parse_loop.simps[of C _ r] parse_cycle_def)

lemma writeData_frame:
  "m_parsingState (snd (writeData C d r)) = m_parsingState r"
  "m_documentState (snd (writeData C d r)) = m_documentState r"
  "m_lastParsingResult (snd (writeData C d r)) = m_lastParsingResult r"
  "m_xmlDeclaration (snd (writeData C d r)) = m_xmlDeclaration r"
  "m_processingInstruction (snd (writeData C d r)) = m_processingInstruction r"
  "m_tokenParser (snd (writeData C d r)) = m_tokenParser r"
  by (simp_all add: writeData_def split: prod.splits)

subsection \<open>Sequences of calls\<close>

text \<open>
  A caller's use of a reader between two calls of \<open>clear\<close>: any sequence of calls of
  \<open>writeData\<close> and \<open>parse\<close>. \<open>run\<close> makes the calls in order and collects what the
  calls of \<open>parse\<close> return.
\<close>

datatype Call = Call_writeData string | Call_parse

fun run ::
  "('p, 'b) Collaborators \<Rightarrow> Call list \<Rightarrow> ('p, 'b) XmlReader
     \<Rightarrow> (ParsingResult list \<times> ('p, 'b) XmlReader) option" where
  "run C [] r = Some ([], r)"
| "run C (Call_writeData d # cs) r = run C cs (snd (writeData C d r))"
| "run C (Call_parse # cs) r =
     (case parse C r of
        None \<Rightarrow> None
      | Some (res, r1) \<Rightarrow>
         (case run C cs r1 of
            None \<Rightarrow> None
          | Some (ress, r2) \<Rightarrow> Some (res # ress, r2)))"

definition parseCalls :: "Call list \<Rightarrow> nat" where
  "parseCalls cs = length (filter (\<lambda>c. c = Call_parse) cs)"

lemma run_in_Error:
  "m_parsingState r = ParsingState_Error \<Longrightarrow>
   \<exists>r2. run C cs r = Some (replicate (parseCalls cs) ParsingResult_Error, r2) \<and>
        m_parsingState r2 = ParsingState_Error"
proof (induction cs arbitrary: r)
  case Nil
  then show ?case by (simp add: parseCalls_def)
next
  case (Cons c cs)
  show ?case
  proof (cases c)
    case (Call_writeData d)
    from Cons.prems have "m_parsingState (snd (writeData C d r)) = ParsingState_Error"
      by (simp add: writeData_frame)
    from Cons.IH[OF this] Call_writeData show ?thesis by (simp add: parseCalls_def)
  next
    case Call_parse
    let ?r1 = "r\<lparr>m_parsingState := ParsingState_Error, m_lastParsingResult := ParsingResult_Error\<rparr>"
    have "m_parsingState ?r1 = ParsingState_Error" by simp
    from Cons.IH[OF this] parse_in_Error[OF Cons.prems, of C] Call_parse show ?thesis
      by (auto simp: parseCalls_def)
  qed
qed

lemma run_after_prolog:
  "m_parsingState r \<noteq> ParsingState_Idle \<Longrightarrow>
   m_documentState r \<noteq> DocumentState_PrologWaitForXmlDeclaration \<Longrightarrow>
   run C cs r = Some (ress, r2) \<Longrightarrow>
   ParsingResult_XmlDeclaration \<notin> set ress \<and> m_documentState r2 = m_documentState r \<and>
   m_parsingState r2 \<noteq> ParsingState_Idle"
proof (induction cs arbitrary: r ress)
  case Nil
  then show ?case by simp
next
  case (Cons c cs)
  show ?case
  proof (cases c)
    case (Call_writeData d)
    with Cons.prems have "run C cs (snd (writeData C d r)) = Some (ress, r2)" by simp
    from Cons.IH[OF _ _ this] Cons.prems(1,2) show ?thesis by (simp add: writeData_frame)
  next
    case Call_parse
    with Cons.prems(3) obtain res r1 ress' where
      p: "parse C r = Some (res, r1)" and t: "run C cs r1 = Some (ress', r2)"
      and ress: "ress = res # ress'"
      by (auto split: option.splits)
    from parse_phase(1)[OF p Cons.prems(1)] Cons.prems(2)
    have d: "m_documentState r1 = m_documentState r" by (rule phaseStep_later)
    from parse_phase(2)[OF p] Cons.prems(1,2)
    have x: "res \<noteq> ParsingResult_XmlDeclaration" by (auto simp: startPhase_def)
    from Cons.IH[OF parse_result(3)[OF p] _ t] d Cons.prems(2) x ress show ?thesis by simp
  qed
qed

subsection \<open>What the reader does with single token types\<close>

lemma readingTokenType_cycle_Whitespace:
  assumes "m_tokenParser r = Some p"
    and "tokenParser_parse C p (m_parsingBuffer r) = (Result_Success, p1, b1)"
    and "tokenFound C p1 = TokenType_Whitespace"
    and "m_documentState r = DocumentState_PrologWaitForXmlDeclaration"
  shows "\<exists>r'. m_documentState r' = DocumentState_PrologWaitForDocumentType \<and>
              m_parsingState r' = m_parsingState r \<and>
              (readingTokenType_cycle C ns r = Some (AnotherCycle r') \<or>
               readingTokenType_cycle C ns r = Some (Finish (ns, r')))"
  using assms unfolding readingTokenType_cycle_def Let_def
  by (cases "setOption C Option_IgnoreLeadingWhitespace p1") simp

lemma readingTokenType_loop_Whitespace:
  assumes "m_tokenParser r = Some p"
    and "tokenParser_parse C p (m_parsingBuffer r) = (Result_Success, p1, b1)"
    and "tokenFound C p1 = TokenType_Whitespace"
    and "m_documentState r = DocumentState_PrologWaitForXmlDeclaration"
    and "readingTokenType_loop C ns r = Some (ns1, r1)"
  shows "m_documentState r1 = DocumentState_PrologWaitForDocumentType"
proof -
  from readingTokenType_cycle_Whitespace[OF assms(1-4), of ns] obtain r' where
    d: "m_documentState r' = DocumentState_PrologWaitForDocumentType"
    and c: "readingTokenType_cycle C ns r = Some (AnotherCycle r') \<or>
            readingTokenType_cycle C ns r = Some (Finish (ns, r'))" by blast
  from c show ?thesis
  proof
    assume "readingTokenType_cycle C ns r = Some (AnotherCycle r')"
    with assms(5) have "readingTokenType_loop C ns r' = Some (ns1, r1)"
      by (simp add: readingTokenType_loop.simps[of C ns r])
    from readingTokenType_loop_props(3)[OF this] d show ?thesis
      by (auto dest: phaseStep_later)
  next
    assume "readingTokenType_cycle C ns r = Some (Finish (ns, r'))"
    with assms(5) d show ?thesis by (simp add: readingTokenType_loop.simps[of C ns r])
  qed
qed

lemma parse_loop_Whitespace:
  assumes "m_parsingState r = ParsingState_ReadingTokenType"
    and "m_tokenParser r = Some p"
    and "tokenParser_parse C p (m_parsingBuffer r) = (Result_Success, p1, b1)"
    and "tokenFound C p1 = TokenType_Whitespace"
    and "m_documentState r = DocumentState_PrologWaitForXmlDeclaration"
    and "parse_loop C res r = Some (res1, r1)"
  shows "m_documentState r1 = DocumentState_PrologWaitForDocumentType"
proof -
  from assms(1,6) obtain ns r' where
    e: "readingTokenType_loop C ParsingState_Error r = Some (ns, r')"
    by (auto simp: parse_loop.simps[of C res r] parse_cycle_def
        executeParsingStateReadingTokenType_def split: option.splits)
  from readingTokenType_loop_Whitespace[OF assms(2-5) e]
  have d: "m_documentState r' = DocumentState_PrologWaitForDocumentType" .
  show ?thesis
  proof (cases "readsToken ns")
    case True
    then have "ns \<noteq> ParsingState_ReadingTokenType" "ns \<noteq> ParsingState_Idle"
      by (auto simp: readsToken_def)
    with True assms(1,6) e
    have l: "parse_loop C res (r'\<lparr>m_parsingState := ns\<rparr>) = Some (res1, r1)"
      by (simp add: parse_loop.simps[of C res r] parse_cycle_def
          executeParsingStateReadingTokenType_def)
    from parse_loop_phase(2)[OF l] \<open>ns \<noteq> ParsingState_Idle\<close> d show ?thesis
      by (auto dest: phaseStep_later)
  next
    case False
    with assms(1,6) e d show ?thesis
      by (auto simp: parse_loop.simps[of C res r] parse_cycle_def
          executeParsingStateReadingTokenType_def split: if_splits)
  qed
qed

lemma parse_Whitespace:
  assumes "m_parsingState r = ParsingState_ReadingTokenType"
    and "m_tokenParser r = Some p"
    and "tokenParser_parse C p (m_parsingBuffer r) = (Result_Success, p1, b1)"
    and "tokenFound C p1 = TokenType_Whitespace"
    and "m_documentState r = DocumentState_PrologWaitForXmlDeclaration"
    and "parse C r = Some (res, r1)"
  shows "m_documentState r1 = DocumentState_PrologWaitForDocumentType"
proof -
  from assms(6) obtain r' where l: "parse_loop C ParsingResult_Error r = Some (res, r')"
    and r1: "r1 = r'\<lparr>m_lastParsingResult := res\<rparr>" by (rule parse_SomeD)
  from parse_loop_Whitespace[OF assms(1-5) l] r1 show ?thesis by simp
qed

lemma parse_Whitespace_Idle:
  assumes "m_parsingState r = ParsingState_Idle"
    and "isValid C (newTokenTypeParser C Option_None)"
    and "tokenParser_parse C (newTokenTypeParser C Option_None) (m_parsingBuffer r)
           = (Result_Success, p1, b1)"
    and "tokenFound C p1 = TokenType_Whitespace"
    and "parse C r = Some (res, r1)"
  shows "m_documentState r1 = DocumentState_PrologWaitForDocumentType"
proof -
  let ?r = "r\<lparr>m_tokenParser := Some (newTokenTypeParser C Option_None),
               m_documentState := DocumentState_PrologWaitForXmlDeclaration,
               m_parsingState := ParsingState_ReadingTokenType\<rparr>"
  from assms(5) obtain r' where l: "parse_loop C ParsingResult_Error r = Some (res, r')"
    and r1: "r1 = r'\<lparr>m_lastParsingResult := res\<rparr>" by (rule parse_SomeD)
  from l assms(1,2) have l': "parse_loop C ParsingResult_Error ?r = Some (res, r')"
    by (simp add: parse_loop.simps[of C _ r] parse_cycle_def setTokenParser_def)
  have s: "m_parsingState ?r = ParsingState_ReadingTokenType"
    and t: "m_tokenParser ?r = Some (newTokenTypeParser C Option_None)"
    and u: "tokenParser_parse C (newTokenTypeParser C Option_None) (m_parsingBuffer ?r)
              = (Result_Success, p1, b1)"
    and d: "m_documentState ?r = DocumentState_PrologWaitForXmlDeclaration"
    by (simp_all add: assms(3))
  have "m_documentState r' = DocumentState_PrologWaitForDocumentType"
    by (rule parse_loop_Whitespace[OF s t u assms(4) d l'])
  with r1 show ?thesis by simp
qed

lemma readingTokenType_loop_CData:
  assumes "m_tokenParser r = Some p"
    and "tokenParser_parse C p (m_parsingBuffer r) = (Result_Success, p1, b1)"
    and "tokenFound C p1 = TokenType_CData"
  shows "readingTokenType_loop C ns r =
           Some (if m_documentState r = DocumentState_Element then ParsingState_ReadingCData else ns,
                 r\<lparr>m_tokenParser := Some p1, m_parsingBuffer := b1\<rparr>)"
  using assms
  by (simp add: readingTokenType_loop.simps[of C ns r] readingTokenType_cycle_def)

lemma parse_CData:
  assumes "m_parsingState r = ParsingState_ReadingTokenType"
    and "m_tokenParser r = Some p"
    and "tokenParser_parse C p (m_parsingBuffer r) = (Result_Success, p1, b1)"
    and "tokenFound C p1 = TokenType_CData"
  shows "parse C r = Some (ParsingResult_Error,
           r\<lparr>m_tokenParser := Some p1, m_parsingBuffer := b1,
             m_parsingState := ParsingState_Error, m_lastParsingResult := ParsingResult_Error\<rparr>)"
proof (cases "m_documentState r = DocumentState_Element")
  case True
  let ?r1 = "r\<lparr>m_tokenParser := Some p1, m_parsingBuffer := b1,
               m_parsingState := ParsingState_ReadingCData\<rparr>"
  have c: "parse_cycle C ParsingResult_Error r = Some (AnotherCycle ?r1)"
    using assms(1) True readingTokenType_loop_CData[OF assms(2-4)]
    by (simp add: parse_cycle_def executeParsingStateReadingTokenType_def readsToken_def)
  have "parse_loop C ParsingResult_Error ?r1 =
          Some (ParsingResult_Error, ?r1\<lparr>m_parsingState := ParsingState_Error\<rparr>)"
    by (simp add: parse_loop.simps[of C _ ?r1] parse_cycle_def)
  with c show ?thesis
    by (simp add: parse_def parse_loop.simps[of C _ r])
next
  case False
  with assms(1) readingTokenType_loop_CData[OF assms(2-4)] show ?thesis
    by (simp add: parse_def parse_loop.simps[of C _ r] parse_cycle_def
        executeParsingStateReadingTokenType_def readsToken_def)
qed

lemma parse_StartOfElement:
  assumes "m_parsingState r = ParsingState_ReadingTokenType"
    and "m_tokenParser r = Some p"
    and "tokenParser_parse C p (m_parsingBuffer r) = (Result_Success, p1, b1)"
    and "tokenFound C p1 = TokenType_StartOfElement"
  shows "parse C r = Some (ParsingResult_Error,
           r\<lparr>m_tokenParser := Some p1, m_parsingBuffer := b1,
             m_parsingState := ParsingState_Error, m_lastParsingResult := ParsingResult_Error\<rparr>)"
proof -
  let ?r1 = "r\<lparr>m_tokenParser := Some p1, m_parsingBuffer := b1,
               m_parsingState := ParsingState_ReadingStartOfElement\<rparr>"
  have "readingTokenType_loop C ParsingState_Error r =
          Some (ParsingState_ReadingStartOfElement, r\<lparr>m_tokenParser := Some p1, m_parsingBuffer := b1\<rparr>)"
    using assms(2-4)
    by (simp add: readingTokenType_loop.simps[of C _ r] readingTokenType_cycle_def)
  then have c: "parse_cycle C ParsingResult_Error r = Some (AnotherCycle ?r1)"
    using assms(1)
    by (simp add: parse_cycle_def executeParsingStateReadingTokenType_def readsToken_def)
  have "parse_loop C ParsingResult_Error ?r1 =
          Some (ParsingResult_Error, ?r1\<lparr>m_parsingState := ParsingState_Error\<rparr>)"
    by (simp add: parse_loop.simps[of C _ ?r1] parse_cycle_def)
  with c show ?thesis
    by (simp add: parse_def parse_loop.simps[of C _ r])
qed

lemma parse_XmlDeclaration_late:
  assumes "m_parsingState r = ParsingState_ReadingProcessingInstruction"
    and "m_tokenParser r = Some p"
    and "tokenParser_parse C p (m_parsingBuffer r) = (Result_Success, p1, b1)"
    and "tokenFound C p1 = TokenType_XmlDeclaration"
    and "m_documentState r \<noteq> DocumentState_PrologWaitForXmlDeclaration"
  shows "parse C r = Some (ParsingResult_Error,
           r\<lparr>m_tokenParser := Some p1, m_parsingBuffer := b1,
             m_parsingState := ParsingState_Error, m_lastParsingResult := ParsingResult_Error\<rparr>)"
  using assms
  by (simp add: parse_def parse_loop.simps[of C _ r] parse_cycle_def
      executeParsingStateReadingProcessingInstruction_def)

section \<open>UTF-8 decoding\<close>

text \<open>
  Modelled from the spec: \<open>Utf::unicodeCharacterFromUtf8\<close> (Utf.h is not among the
  sources), the codec of the specification's external interfaces:
  \<open>decode(bytes, offset) -> {code_point, next_offset} | NeedMore | Invalid\<close>, for
  code points \<open>U+0000\<close> to \<open>U+10FFFF\<close> without the surrogates. \<open>utf8_decode bs\<close>
  decodes the code point that starts the bytes \<open>bs\<close> and gives the number of bytes it
  takes; it asks for more data when fewer bytes are there than the first byte announces.
\<close>

datatype Utf_Result = Utf_Success nat nat | Utf_Incomplete | Utf_Error

definition continuationByte :: "nat \<Rightarrow> bool" where
  "continuationByte b \<longleftrightarrow> 128 \<le> b \<and> b < 192"

definition utf8_sequenceLength :: "nat \<Rightarrow> nat" where
  "utf8_sequenceLength b0 =
     (if b0 < 128 then 1
      else if 192 \<le> b0 \<and> b0 < 224 then 2
      else if 224 \<le> b0 \<and> b0 < 240 then 3
      else if 240 \<le> b0 \<and> b0 < 248 then 4
      else 0)"

fun utf8_codePoint :: "nat list \<Rightarrow> nat option" where
  "utf8_codePoint [b0] = (if b0 < 128 then Some b0 else None)"
| "utf8_codePoint [b0, b1] =
     (let cp = (b0 - 192) * 64 + (b1 - 128) in
      if continuationByte b1 \<and> 128 \<le> cp then Some cp else None)"
| "utf8_codePoint [b0, b1, b2] =
     (let cp = (b0 - 224) * 4096 + (b1 - 128) * 64 + (b2 - 128) in
      if continuationByte b1 \<and> continuationByte b2 \<and> 2048 \<le> cp \<and>
         \<not> (55296 \<le> cp \<and> cp < 57344)
      then Some cp else None)"
| "utf8_codePoint [b0, b1, b2, b3] =
     (let cp = (b0 - 240) * 262144 + (b1 - 128) * 4096 + (b2 - 128) * 64 + (b3 - 128) in
      if continuationByte b1 \<and> continuationByte b2 \<and> continuationByte b3 \<and>
         65536 \<le> cp \<and> cp < 1114112
      then Some cp else None)"
| "utf8_codePoint _ = None"

definition utf8_decode :: "string \<Rightarrow> Utf_Result" where
  "utf8_decode bs =
     (case bs of
        [] \<Rightarrow> Utf_Incomplete
      | c0 # _ \<Rightarrow>
          (let n = utf8_sequenceLength (of_char c0) in
           if n = 0 then Utf_Error
           else if length bs < n then Utf_Incomplete
           else (case utf8_codePoint (map of_char (take n bs)) of
                   None \<Rightarrow> Utf_Error
                 | Some cp \<Rightarrow> Utf_Success cp n)))"

lemma utf8_decode_length:
  "utf8_decode bs = Utf_Success cp n \<Longrightarrow> 0 < n \<and> n \<le> length bs"
  by (cases bs) (auto simp: utf8_decode_def Let_def split: if_splits option.splits)

lemma utf8_decode_append:
  assumes "utf8_decode bs \<noteq> Utf_Incomplete"
  shows "utf8_decode (bs @ ds) = utf8_decode bs"
proof (cases bs)
  case Nil
  with assms show ?thesis by (simp add: utf8_decode_def)
next
  case (Cons c0 cs)
  let ?n = "utf8_sequenceLength (of_char c0)"
  show ?thesis
  proof (cases "?n = 0")
    case True
    with Cons show ?thesis by (simp add: utf8_decode_def)
  next
    case False
    with assms Cons have "?n \<le> length bs"
      by (auto simp: utf8_decode_def Let_def split: if_splits)
    then have "take ?n (bs @ ds) = take ?n bs" by simp
    with \<open>?n \<le> length bs\<close> Cons show ?thesis
      by (simp add: utf8_decode_def Let_def del: take_append)
  qed
qed



section \<open>The document writer (XmlWriter.cpp)\<close>

datatype State =
    State_Empty
  | State_DocumentStarted
  | State_ElementStarted
  | State_InElement
  | State_DocumentEnded

text \<open>
  \<open>Common::QuotationMark\<close>: the source names \<open>Quote\<close> and \<open>Apostrophe\<close> and has a
  default branch for any other value of the enumeration, which \<open>None\<close> stands for.
\<close>

datatype QuotationMark = QuotationMark_None | QuotationMark_Quote | QuotationMark_Apostrophe

record Attribute =
  Attribute_name :: string
  Attribute_value :: string

text \<open>
  \<open>ElementInfo\<close> is declared in a header that is not among the sources; a new element
  is taken to start with empty content.
\<close>

record ElementInfo =
  ElementInfo_name :: string
  contentEmpty :: bool

definition ElementInfo_new :: "string \<Rightarrow> ElementInfo" where
  "ElementInfo_new elementName = \<lparr>ElementInfo_name = elementName, contentEmpty = True\<rparr>"

record XmlWriter =
  m_state :: State
  m_xmlDeclarationSet :: bool
  m_documentType :: string
  m_openedElementList :: "ElementInfo list"
  m_currentElementInfo :: ElementInfo
  m_attributeNameList :: "string list"
  m_xmlString :: string

text \<open>\<open>XmlValidator\<close> is not among the sources: the writer is modelled over any validator.\<close>

record XmlValidator =
  validateNameString :: "string \<Rightarrow> bool"
  validateCommentString :: "string \<Rightarrow> bool"
  validatePiTargetString :: "string \<Rightarrow> bool"
  validatePiValueString :: "string \<Rightarrow> bool"
  validateAttValueString :: "string \<Rightarrow> bool"
  validateTextNodeString :: "string \<Rightarrow> bool"

text \<open>
  \<open>clearDocument\<close>: the statement \<open>m_documentType;\<close> of the source has no effect, so
  the document type is left as it is.
\<close>

definition clearDocument :: "XmlWriter \<Rightarrow> XmlWriter" where
  "clearDocument w =
     w\<lparr>m_state := State_Empty,
       m_xmlDeclarationSet := False,
       m_openedElementList := [],
       m_currentElementInfo := ElementInfo_new [],
       m_attributeNameList := [],
       m_xmlString := []\<rparr>"

text \<open>The constructor: the string members start empty, then \<open>clearDocument\<close> runs.\<close>

definition XmlWriter_new :: XmlWriter where
  "XmlWriter_new =
     clearDocument \<lparr>m_state = State_Empty, m_xmlDeclarationSet = False, m_documentType = [],
       m_openedElementList = [], m_currentElementInfo = ElementInfo_new [],
       m_attributeNameList = [], m_xmlString = []\<rparr>"

definition getXmlString :: "XmlWriter \<Rightarrow> string" where
  "getXmlString w = (if m_state w = State_DocumentEnded then m_xmlString w else [])"

definition setXmlDeclaration :: "XmlWriter \<Rightarrow> bool \<times> XmlWriter" where
  \<open>setXmlDeclaration w =
     (if m_state w = State_Empty then
        (True, w\<lparr>m_xmlString := ''<?xml version="1.0" encoding="UTF-8"?>'',
                 m_xmlDeclarationSet := True,
                 m_state := State_DocumentStarted\<rparr>)
      else (False, w))\<close>

definition setDocumentType :: "XmlValidator \<Rightarrow> string \<Rightarrow> XmlWriter \<Rightarrow> bool \<times> XmlWriter" where
  "setDocumentType V documentType w =
     (if m_documentType w = [] then
        if m_state w = State_Empty \<or> m_state w = State_DocumentStarted then
          if validateNameString V documentType then
            (True, w\<lparr>m_xmlString := m_xmlString w @ ''<!DOCTYPE '' @ documentType @ ''>'',
                     m_documentType := documentType,
                     m_state := State_DocumentStarted\<rparr>)
          else (False, w)
        else (False, w)
      else (False, w))"

text \<open>The three statements every operation runs when it closes an open start tag.\<close>

definition closeStartTag :: "XmlWriter \<Rightarrow> XmlWriter" where
  "closeStartTag w =
     w\<lparr>m_xmlString := m_xmlString w @ ''>'',
       m_currentElementInfo := (m_currentElementInfo w)\<lparr>contentEmpty := False\<rparr>,
       m_attributeNameList := []\<rparr>"

definition addComment :: "XmlValidator \<Rightarrow> string \<Rightarrow> XmlWriter \<Rightarrow> bool \<times> XmlWriter" where
  "addComment V commentText w =
     (if validateCommentString V commentText then
        (case m_state w of
           State_Empty \<Rightarrow>
             (True, w\<lparr>m_xmlString := m_xmlString w @ ''<!--'' @ commentText @ ''-->'',
                      m_state := State_DocumentStarted\<rparr>)
         | State_ElementStarted \<Rightarrow>
             (let w1 = closeStartTag w in
              (True, w1\<lparr>m_xmlString := m_xmlString w1 @ ''<!--'' @ commentText @ ''-->'',
                        m_state := State_InElement\<rparr>))
         | _ \<Rightarrow>
             (True, w\<lparr>m_xmlString := m_xmlString w @ ''<!--'' @ commentText @ ''-->'',
                      m_state := m_state w\<rparr>))
      else (False, w))"

text \<open>
  \<open>addProcessingInstruction\<close> computes a next state and then assigns
  \<open>State_ElementStarted\<close> whatever it computed; so does \<open>addTextNode\<close>.
\<close>

definition addProcessingInstruction ::
  "XmlValidator \<Rightarrow> string \<Rightarrow> string \<Rightarrow> XmlWriter \<Rightarrow> bool \<times> XmlWriter" where
  "addProcessingInstruction V piTargetName piValue w =
     (if validatePiTargetString V piTargetName \<and> validatePiValueString V piValue then
        (let w1 = (if m_state w = State_ElementStarted then closeStartTag w else w);
             w2 = w1\<lparr>m_xmlString := m_xmlString w1 @ ''<?'' @ piTargetName\<rparr>;
             w3 = (if piValue \<noteq> [] then w2\<lparr>m_xmlString := m_xmlString w2 @ '' '' @ piValue\<rparr>
                   else w2)
         in (True, w3\<lparr>m_xmlString := m_xmlString w3 @ ''?>'',
                      m_state := State_ElementStarted\<rparr>))
      else (False, w))"

definition startElement :: "XmlValidator \<Rightarrow> string \<Rightarrow> XmlWriter \<Rightarrow> bool \<times> XmlWriter" where
  "startElement V elementName w =
     (if validateNameString V elementName \<and>
         (case m_state w of
            State_DocumentStarted \<Rightarrow> m_documentType w = [] \<or> elementName = m_documentType w
          | State_Empty \<Rightarrow> True
          | State_InElement \<Rightarrow> True
          | State_ElementStarted \<Rightarrow> True
          | State_DocumentEnded \<Rightarrow> False)
      then
        (let w1 = (if m_state w = State_ElementStarted then closeStartTag w else w);
             w2 = (if ElementInfo_name (m_currentElementInfo w1) \<noteq> []
                   then w1\<lparr>m_openedElementList :=
                             m_openedElementList w1 @ [m_currentElementInfo w1]\<rparr>
                   else w1)
         in (True, w2\<lparr>m_xmlString := m_xmlString w2 @ ''<'' @ elementName,
                      m_currentElementInfo := ElementInfo_new elementName,
                      m_state := State_ElementStarted\<rparr>))
      else (False, w))"

definition addTextNode :: "XmlValidator \<Rightarrow> string \<Rightarrow> XmlWriter \<Rightarrow> bool \<times> XmlWriter" where
  "addTextNode V textNode w =
     (if validateTextNodeString V textNode \<and>
         (m_state w = State_InElement \<or> m_state w = State_ElementStarted)
      then
        (let w1 = (if m_state w = State_ElementStarted then closeStartTag w else w)
         in (True, w1\<lparr>m_xmlString := m_xmlString w1 @ textNode,
                      m_state := State_ElementStarted\<rparr>))
      else (False, w))"

text \<open>
  \<open>endElement\<close> is declared to return \<open>bool\<close> and has an empty body: control flows off
  its end without a \<open>return\<close>, so a call of it has no defined result (\<open>None\<close>).
\<close>

definition endElement :: "XmlWriter \<Rightarrow> (bool \<times> XmlWriter) option" where
  "endElement w = None"

text \<open>
  Modelled from the spec: \<open>Common::escapeSpecialCharacter\<close> (Common.h is not among
  the sources), the five predefined entities; the empty string for any other character.
\<close>

definition escapeSpecialCharacter :: "nat \<Rightarrow> string" where
  "escapeSpecialCharacter c =
     (if c = 60 then ''&lt;''
      else if c = 62 then ''&gt;''
      else if c = 38 then ''&amp;''
      else if c = 34 then ''&quot;''
      else if c = 39 then ''&apos;''
      else [])"

text \<open>
  The \<open>do ... while\<close> loop of \<open>escapeAttValue\<close>, entered with a value that is not
  empty. It returns \<open>success\<close>, \<open>characterEscaped\<close> and \<open>escapedString\<close>. The code
  points \<open>60\<close>, \<open>38\<close>, \<open>34\<close> and \<open>39\<close> are \<open><\<close>, \<open>&\<close>, the quote and the
  apostrophe. A quote under an apostrophe mark, and an apostrophe under a quote mark,
  leave \<open>success\<close> false, as the source does.
\<close>

function escapeAttValue_loop ::
  "string \<Rightarrow> QuotationMark \<Rightarrow> string \<Rightarrow> bool \<Rightarrow> nat \<Rightarrow> bool \<times> bool \<times> string" where
  "escapeAttValue_loop unescapedAttValue quotationMark escapedString characterEscaped currentPosition =
     (case utf8_decode (drop currentPosition unescapedAttValue) of
        Utf_Success unicodeCharacter len \<Rightarrow>
          (let nextPosition = currentPosition + len in
           if unicodeCharacter = 60 \<or> unicodeCharacter = 38 \<or>
              unicodeCharacter = 34 \<or> unicodeCharacter = 39
           then
             if unicodeCharacter = 34 \<and> quotationMark = QuotationMark_Apostrophe
             then (False, characterEscaped, escapedString)
             else if unicodeCharacter = 39 \<and> quotationMark = QuotationMark_Quote
             then (False, characterEscaped, escapedString)
             else if escapeSpecialCharacter unicodeCharacter \<noteq> [] then
               (let escapedString1 =
                      (if \<not> characterEscaped
                       then escapedString @ take currentPosition unescapedAttValue
                       else escapedString) @ escapeSpecialCharacter unicodeCharacter
                in if nextPosition < length unescapedAttValue
                   then escapeAttValue_loop unescapedAttValue quotationMark escapedString1 True
                          nextPosition
                   else (True, True, escapedString1))
             else (False, characterEscaped, escapedString)
           else
             (let escapedString1 =
                    (if characterEscaped
                     then escapedString @ take len (drop currentPosition unescapedAttValue)
                     else escapedString)
              in if nextPosition < length unescapedAttValue
                 then escapeAttValue_loop unescapedAttValue quotationMark escapedString1
                        characterEscaped nextPosition
                 else (True, characterEscaped, escapedString1)))
      | _ \<Rightarrow> (False, characterEscaped, escapedString))"
  by pat_completeness auto
termination
  by (relation "measure (\<lambda>(s, q, e, c, p). length s - p)")
     (auto dest: utf8_decode_length)

declare escapeAttValue_loop.simps [simp del]

definition escapeAttValue :: "string \<Rightarrow> QuotationMark \<Rightarrow> string" where
  "escapeAttValue unescapedAttValue quotationMark =
     (if unescapedAttValue \<noteq> [] then
        (case escapeAttValue_loop unescapedAttValue quotationMark [] False 0 of
           (success, characterEscaped, escapedString) \<Rightarrow>
             if success then (if \<not> characterEscaped then unescapedAttValue else escapedString)
             else [])
      else [])"

text \<open>The search of \<open>addAttribute\<close> for the name in \<open>m_attributeNameList\<close>.\<close>

primrec attributeNameFound :: "string \<Rightarrow> string list \<Rightarrow> bool" where
  "attributeNameFound n [] = False"
| "attributeNameFound n (x # xs) = (if n = x then True else attributeNameFound n xs)"

definition quotationMarkCharacter :: "QuotationMark \<Rightarrow> char" where
  "quotationMarkCharacter q = (if q = QuotationMark_Quote then CHR 0x22 else CHR 0x27)"

definition addAttribute ::
  "XmlValidator \<Rightarrow> Attribute \<Rightarrow> QuotationMark \<Rightarrow> XmlWriter \<Rightarrow> bool \<times> XmlWriter" where
  "addAttribute V attribute quotationMark w =
     (if m_state w = State_ElementStarted then
        if validateNameString V (Attribute_name attribute) then
          if \<not> attributeNameFound (Attribute_name attribute) (m_attributeNameList w) then
            (let escapedAttrValue = escapeAttValue (Attribute_value attribute) quotationMark in
             if (escapedAttrValue = [] \<and> Attribute_value attribute = []) \<or>
                (escapedAttrValue \<noteq> [] \<and> Attribute_value attribute \<noteq> [])
             then
               if validateAttValueString V escapedAttrValue then
                 (case quotationMark of
                    QuotationMark_None \<Rightarrow> (False, w)
                  | _ \<Rightarrow>
                     (True,
                      w\<lparr>m_attributeNameList := m_attributeNameList w @ [Attribute_name attribute],
                        m_xmlString := m_xmlString w @ '' '' @ Attribute_name attribute @ ''=''
                          @ [quotationMarkCharacter quotationMark] @ escapedAttrValue
                          @ [quotationMarkCharacter quotationMark]\<rparr>))
               else (False, w)
             else (False, w))
          else (False, w)
        else (False, w)
      else (False, w))"

subsection \<open>Sequences of calls of the writer\<close>

datatype WriterCall =
    W_clearDocument
  | W_getXmlString
  | W_setXmlDeclaration
  | W_setDocumentType string
  | W_addComment string
  | W_addProcessingInstruction string string
  | W_startElement string
  | W_addAttribute Attribute QuotationMark
  | W_addTextNode string
  | W_endElement

text \<open>
  The writer after one call, \<open>None\<close> when the call has no defined result;
  \<open>getXmlString\<close> is \<open>const\<close>.
\<close>

fun writerCall :: "XmlValidator \<Rightarrow> WriterCall \<Rightarrow> XmlWriter \<Rightarrow> XmlWriter option" where
  "writerCall V W_clearDocument w = Some (clearDocument w)"
| "writerCall V W_getXmlString w = Some w"
| "writerCall V W_setXmlDeclaration w = Some (snd (setXmlDeclaration w))"
| "writerCall V (W_setDocumentType d) w = Some (snd (setDocumentType V d w))"
| "writerCall V (W_addComment c) w = Some (snd (addComment V c w))"
| "writerCall V (W_addProcessingInstruction t v) w = Some (snd (addProcessingInstruction V t v w))"
| "writerCall V (W_startElement n) w = Some (snd (startElement V n w))"
| "writerCall V (W_addAttribute a q) w = Some (snd (addAttribute V a q w))"
| "writerCall V (W_addTextNode t) w = Some (snd (addTextNode V t w))"
| "writerCall V W_endElement w = map_option snd (endElement w)"

fun writerCalls :: "XmlValidator \<Rightarrow> WriterCall list \<Rightarrow> XmlWriter \<Rightarrow> XmlWriter option" where
  "writerCalls V [] w = Some w"
| "writerCalls V (c # cs) w =
     (case writerCall V c w of
        None \<Rightarrow> None
      | Some w1 \<Rightarrow> writerCalls V cs w1)"

text \<open>A validator for the examples: it accepts the strings that are not empty.\<close>

definition exampleValidator :: XmlValidator where
  "exampleValidator =
     \<lparr>validateNameString = (\<lambda>s. s \<noteq> []), validateCommentString = (\<lambda>s. s \<noteq> []),
      validatePiTargetString = (\<lambda>s. s \<noteq> []), validatePiValueString = (\<lambda>s. s \<noteq> []),
      validateAttValueString = (\<lambda>s. s \<noteq> []), validateTextNodeString = (\<lambda>s. s \<noteq> [])\<rparr>"

lemma attributeNameFound_set: "attributeNameFound n xs \<longleftrightarrow> n \<in> set xs"
  by (induction xs) auto

text \<open>No statement of the writer assigns \<open>State_DocumentEnded\<close>.\<close>

lemma writerCall_not_ended:
  "m_state w \<noteq> State_DocumentEnded \<Longrightarrow> writerCall V c w = Some w1 \<Longrightarrow>
   m_state w1 \<noteq> State_DocumentEnded"
  by (cases c)
     (auto simp: clearDocument_def setXmlDeclaration_def setDocumentType_def addComment_def
        addProcessingInstruction_def startElement_def addAttribute_def addTextNode_def
        endElement_def closeStartTag_def Let_def
        split: if_splits State.splits QuotationMark.splits)

lemma writerCalls_not_ended:
  "m_state w \<noteq> State_DocumentEnded \<Longrightarrow> writerCalls V cs w = Some w1 \<Longrightarrow>
   m_state w1 \<noteq> State_DocumentEnded"
proof (induction cs arbitrary: w)
  case Nil
  then show ?case by simp
next
  case (Cons c cs)
  from Cons.prems(2) obtain w' where c: "writerCall V c w = Some w'"
    and r: "writerCalls V cs w' = Some w1" by (auto split: option.splits)
  from Cons.IH[OF writerCall_not_ended[OF Cons.prems(1) c] r] show ?case .
qed

lemma writerCalls_endElement: "writerCalls V (cs @ W_endElement # cs') w = None"
  by (induction cs arbitrary: w) (auto simp: endElement_def split: option.splits)

text \<open>The writer after the start tag of a root element \<open>a\<close>.\<close>

definition rootStarted :: XmlWriter where
  \<open>rootStarted =
     \<lparr>m_state = State_ElementStarted, m_xmlDeclarationSet = False, m_documentType = [],
      m_openedElementList = [], m_currentElementInfo = ElementInfo_new ''a'',
      m_attributeNameList = [], m_xmlString = ''<a''\<rparr>\<close>

lemma writerCalls_rootStarted:
  \<open>writerCalls exampleValidator [W_startElement ''a''] XmlWriter_new = Some rootStarted\<close>
  by (simp add: startElement_def exampleValidator_def XmlWriter_new_def clearDocument_def
      ElementInfo_new_def rootStarted_def)

text \<open>
  C9. \<open>getXmlString\<close> returns the text only in the state \<open>State_DocumentEnded\<close>, and no
  call leads to that state: after every sequence of calls that has a defined result the
  state is another one and \<open>getXmlString\<close> returns the empty string, whatever text has been
  accumulated; and the call that is to end the root element, \<open>endElement\<close>, has no defined
  result, wherever it stands in a sequence.
\<close>

theorem getXmlString_never_document:
  \<open>(writerCalls V cs XmlWriter_new = Some w \<longrightarrow>
      m_state w \<noteq> State_DocumentEnded \<and> getXmlString w = [] \<and>
      writerCalls V (cs @ [W_getXmlString]) XmlWriter_new = Some w) \<and>
   writerCalls V (cs @ W_endElement # cs') w0 = None \<and>
   getXmlString w0 = (if m_state w0 = State_DocumentEnded then m_xmlString w0 else [])\<close>
proof (intro conjI impI)
  assume r: "writerCalls V cs XmlWriter_new = Some w"
  have "m_state XmlWriter_new \<noteq> State_DocumentEnded"
    by (simp add: XmlWriter_new_def clearDocument_def)
  from writerCalls_not_ended[OF this r] show "m_state w \<noteq> State_DocumentEnded" .
  then show "getXmlString w = []" by (simp add: getXmlString_def)
  have "writerCalls V (cs @ [W_getXmlString]) w' = Some w" if "writerCalls V cs w' = Some w" for w'
    using that by (induction cs arbitrary: w') (auto split: option.splits)
  from this[OF r] show "writerCalls V (cs @ [W_getXmlString]) XmlWriter_new = Some w" .
next
  show "writerCalls V (cs @ W_endElement # cs') w0 = None" by (rule writerCalls_endElement)
qed (simp add: getXmlString_def)

theorem getXmlString_never_document_witness:
  \<open>writerCalls exampleValidator [W_startElement ''a''] XmlWriter_new = Some rootStarted \<and>
   m_xmlString rootStarted = ''<a'' \<and>
   m_state rootStarted \<noteq> State_DocumentEnded \<and>
   getXmlString rootStarted = [] \<and>
   writerCalls exampleValidator [W_startElement ''a'', W_getXmlString] XmlWriter_new
     = Some rootStarted \<and>
   writerCalls exampleValidator [W_startElement ''a'', W_endElement, W_getXmlString] XmlWriter_new
     = None\<close>
  using getXmlString_never_document[of exampleValidator "[W_startElement ''a'']" rootStarted
      "[W_getXmlString]" XmlWriter_new]
    writerCalls_rootStarted
  by (simp add: rootStarted_def)

text \<open>
  What a call of \<open>addAttribute\<close> does: it returns true only in the state
  \<open>State_ElementStarted\<close>, for a name the validator accepts that is not yet in the list of
  the names added to the start tag, and for a quote or apostrophe mark; it then appends the
  name to that list and a space, the name, \<open>=\<close> and the escaped value between two marks to
  the text, and changes nothing else. When it returns false the writer is unchanged.
\<close>

lemma addAttribute_result:
  assumes "addAttribute V a q w = (ok, w1)"
  shows "(ok \<longrightarrow>
            m_state w = State_ElementStarted \<and>
            validateNameString V (Attribute_name a) \<and>
            Attribute_name a \<notin> set (m_attributeNameList w) \<and>
            (q = QuotationMark_Quote \<or> q = QuotationMark_Apostrophe) \<and>
            w1 = w\<lparr>m_attributeNameList := m_attributeNameList w @ [Attribute_name a],
                   m_xmlString := m_xmlString w @ '' '' @ Attribute_name a @ ''=''
                     @ [quotationMarkCharacter q] @ escapeAttValue (Attribute_value a) q
                     @ [quotationMarkCharacter q]\<rparr>) \<and>
         (\<not> ok \<longrightarrow> w1 = w)"
  using assms unfolding addAttribute_def Let_def
  by (cases q) (auto simp: attributeNameFound_set split: if_splits)

lemma escapeAttValue_unescaped:
  \<open>escapeAttValue ''x'' q = ''x''\<close>
  by (simp add: escapeAttValue_def escapeAttValue_loop.simps utf8_decode_def
      utf8_sequenceLength_def escapeSpecialCharacter_def)

text \<open>
  C10. The state \<open>State_ElementStarted\<close> does not mean that a start tag is open:
  \<open>addProcessingInstruction\<close> and \<open>addTextNode\<close> assign it whatever the state was. After
  a processing instruction on a new writer, with no element started, \<open>addAttribute\<close>
  returns true and appends the attribute to the text behind the processing instruction.
\<close>

theorem addAttribute_no_start_tag:
  assumes "validatePiTargetString V t" and "validatePiValueString V v" and "v \<noteq> []"
    and "validateNameString V n" and \<open>validateAttValueString V ''x''\<close>
    and "q = QuotationMark_Quote \<or> q = QuotationMark_Apostrophe"
  shows \<open>\<exists>w1.
     addProcessingInstruction V t v XmlWriter_new = (True, w1) \<and>
     m_state w1 = State_ElementStarted \<and>
     m_openedElementList w1 = [] \<and> ElementInfo_name (m_currentElementInfo w1) = [] \<and>
     m_xmlString w1 = ''<?'' @ t @ '' '' @ v @ ''?>'' \<and>
     addAttribute V \<lparr>Attribute_name = n, Attribute_value = ''x''\<rparr> q w1 =
       (True, w1\<lparr>m_attributeNameList := [n],
                 m_xmlString := ''<?'' @ t @ '' '' @ v @ ''?>'' @ '' '' @ n @ ''=''
                   @ [quotationMarkCharacter q] @ ''x'' @ [quotationMarkCharacter q]\<rparr>)\<close>
  using assms
  by (auto simp: addProcessingInstruction_def addAttribute_def XmlWriter_new_def
      clearDocument_def ElementInfo_new_def Let_def escapeAttValue_unescaped)

theorem addAttribute_no_start_tag_witness:
  \<open>\<exists>w1.
     addProcessingInstruction exampleValidator ''t'' ''v'' XmlWriter_new = (True, w1) \<and>
     m_state w1 = State_ElementStarted \<and>
     m_openedElementList w1 = [] \<and> ElementInfo_name (m_currentElementInfo w1) = [] \<and>
     m_xmlString w1 = ''<?t v?>'' \<and>
     addAttribute exampleValidator \<lparr>Attribute_name = ''id'', Attribute_value = ''x''\<rparr>
       QuotationMark_Quote w1 =
       (True, w1\<lparr>m_attributeNameList := [''id''], m_xmlString := ''<?t v?> id="x"''\<rparr>)\<close>
  using addAttribute_no_start_tag[of exampleValidator "''t''" "''v''" "''id''" QuotationMark_Quote]
  by (simp add: exampleValidator_def quotationMarkCharacter_def)

section \<open>The token parsers, from the specification\<close>

text \<open>
  The parsing buffer and the two token parsers the reader drives are not among the
  sources. This section models them from the specification, as one implementation of
  the reader's collaborators; the claims that are about whole documents are settled on the
  reader of the source running over it.
\<close>

subsection \<open>Character classes\<close>

text \<open>
  Modelled from the spec: the predicates \<open>is_xml_whitespace\<close>, \<open>is_name_start\<close> and
  \<open>is_name_char\<close> of the specification's external interfaces, which are those of
  XML 1.0: whitespace is \<open>#x20 #x9 #xD #xA\<close>, and the two name classes are the
  productions \<open>NameStartChar\<close> and \<open>NameChar\<close>.
\<close>

definition isWhitespace :: "nat \<Rightarrow> bool" where
  "isWhitespace c \<longleftrightarrow> c = 32 \<or> c = 9 \<or> c = 13 \<or> c = 10"

definition isNameStartChar :: "nat \<Rightarrow> bool" where
  "isNameStartChar c \<longleftrightarrow>
     c = 58 \<or> (65 \<le> c \<and> c \<le> 90) \<or> c = 95 \<or> (97 \<le> c \<and> c \<le> 122) \<or>
     (192 \<le> c \<and> c \<le> 214) \<or> (216 \<le> c \<and> c \<le> 246) \<or> (248 \<le> c \<and> c \<le> 767) \<or>
     (880 \<le> c \<and> c \<le> 893) \<or> (895 \<le> c \<and> c \<le> 8191) \<or> (8204 \<le> c \<and> c \<le> 8205) \<or>
     (8304 \<le> c \<and> c \<le> 8591) \<or> (11264 \<le> c \<and> c \<le> 12271) \<or>
     (12289 \<le> c \<and> c \<le> 55295) \<or> (63744 \<le> c \<and> c \<le> 64975) \<or>
     (65008 \<le> c \<and> c \<le> 65533) \<or> (65536 \<le> c \<and> c \<le> 983039)"

definition isNameChar :: "nat \<Rightarrow> bool" where
  "isNameChar c \<longleftrightarrow>
     isNameStartChar c \<or> c = 45 \<or> c = 46 \<or> (48 \<le> c \<and> c \<le> 57) \<or> c = 183 \<or>
     (768 \<le> c \<and> c \<le> 879) \<or> (8255 \<le> c \<and> c \<le> 8256)"

subsection \<open>The parsing buffer and the run of a parser over it\<close>

text \<open>
  Modelled from the spec: the input buffer, an ordered sequence of UTF-8 bytes with a
  cursor. The model keeps the bytes from the cursor on, the ones still to be read;
  bytes before the cursor are dropped as they are read (\<open>erase_to_cursor\<close>), and a parser
  that backs off gives the bytes it read ahead back to the front. The buffer is not
  bounded, so \<open>writeData\<close> accepts all it is given.
\<close>

type_synonym ParsingBuffer = string

definition ParsingBuffer_writeData :: "string \<Rightarrow> ParsingBuffer \<Rightarrow> nat \<times> ParsingBuffer" where
  "ParsingBuffer_writeData d b = (length d, b @ d)"

definition ParsingBuffer_clear :: "ParsingBuffer \<Rightarrow> ParsingBuffer" where
  "ParsingBuffer_clear b = []"

definition ParsingBuffer_eraseToCurrentPosition :: "ParsingBuffer \<Rightarrow> ParsingBuffer" where
  "ParsingBuffer_eraseToCurrentPosition b = b"

text \<open>
  Modelled from the spec: a parser is a state machine that reads one code point at a
  time and keeps all it needs to go on in its state, so that it can stop wherever the
  data ends. A step gets the state, the code point and the bytes of the code point, and
  either goes on (\<open>Next\<close>), or has read a whole item and gives back the bytes it read
  ahead (\<open>Done\<close>), or fails (\<open>Fail\<close>). \<open>drive\<close> runs the steps over the buffer: when
  the buffer has no complete code point left it returns \<open>NeedMoreData\<close> and leaves the
  incomplete bytes in the buffer; bytes that are not UTF-8 make it fail.
\<close>

datatype 's Outcome = Next 's | Done 's string | Fail 's

function drive ::
  "('s \<Rightarrow> nat \<Rightarrow> string \<Rightarrow> 's Outcome) \<Rightarrow> 's \<Rightarrow> ParsingBuffer \<Rightarrow> Result \<times> 's \<times> ParsingBuffer" where
  "drive step s b =
     (case utf8_decode b of
        Utf_Incomplete \<Rightarrow> (Result_NeedMoreData, s, b)
      | Utf_Error \<Rightarrow> (Result_Error, s, b)
      | Utf_Success c n \<Rightarrow>
          (case step s c (take n b) of
             Next s1 \<Rightarrow> drive step s1 (drop n b)
           | Done s1 back \<Rightarrow> (Result_Success, s1, back @ drop n b)
           | Fail s1 \<Rightarrow> (Result_Error, s1, drop n b)))"
  by pat_completeness auto
termination
  by (relation "measure (\<lambda>(step, s, b). length b)") (auto dest: utf8_decode_length)

declare drive.simps [simp del]

subsection \<open>The token type parser\<close>

text \<open>
  Modelled from the spec: \<open>TokenTypeParser\<close>, the item classification of the
  specification (action \<open>ReadItem\<close>). After the leading whitespace its option lets it
  skip, it reads the sentinel \<open><?\<close>, \<open><!\<close>, \<open></\<close> or \<open><\<close> and classifies:
  \<open><?\<close> is a processing instruction, \<open><!--\<close> a comment, \<open><![CDATA[\<close> a CDATA
  section, any other \<open><!\<close> a document type, \<open></\<close> the end of an element, \<open><\<close> and a
  name start character the start of an element. What it read beyond the sentinel to
  classify is given back. Without the option to ignore it, leading whitespace is the
  item \<open>Whitespace\<close>. A byte order mark is skipped where a document starts, that is
  by a parser made with \<open>Option_None\<close> that has read nothing yet. With
  \<open>Option_Synchronization\<close> characters that start no item are skipped as well.
\<close>

datatype TokenTypeState =
    TokenTypeState_Start
  | TokenTypeState_WaitingForStartOfToken
  | TokenTypeState_Lt
  | TokenTypeState_LtBang
  | TokenTypeState_LtBangDash
  | TokenTypeState_CDataPrefix nat
  | TokenTypeState_Finished
  | TokenTypeState_Error

record TokenTypeParser =
  tt_option :: Option
  tt_state :: TokenTypeState
  tt_tokenFound :: TokenType

definition TokenTypeParser_new :: "Option \<Rightarrow> TokenTypeParser" where
  "TokenTypeParser_new opt =
     \<lparr>tt_option = opt,
      tt_state = (if opt = Option_None then TokenTypeState_Start
                  else TokenTypeState_WaitingForStartOfToken),
      tt_tokenFound = TokenType_None\<rparr>"

definition tt_found :: "TokenTypeParser \<Rightarrow> TokenType \<Rightarrow> string \<Rightarrow> TokenTypeParser Outcome" where
  "tt_found p t back = Done (p\<lparr>tt_state := TokenTypeState_Finished, tt_tokenFound := t\<rparr>) back"

definition tt_failed :: "TokenTypeParser \<Rightarrow> TokenTypeParser Outcome" where
  "tt_failed p = Fail (p\<lparr>tt_state := TokenTypeState_Error\<rparr>)"

definition tt_waiting :: "TokenTypeParser \<Rightarrow> nat \<Rightarrow> string \<Rightarrow> TokenTypeParser Outcome" where
  \<open>tt_waiting p c bytes =
     (if isWhitespace c then
        (if tt_option p = Option_None then tt_found p TokenType_Whitespace []
         else Next (p\<lparr>tt_state := TokenTypeState_WaitingForStartOfToken\<rparr>))
      else if bytes = ''<'' then Next (p\<lparr>tt_state := TokenTypeState_Lt\<rparr>)
      else if tt_option p = Option_Synchronization
      then Next (p\<lparr>tt_state := TokenTypeState_WaitingForStartOfToken\<rparr>)
      else tt_failed p)\<close>

definition TokenTypeParser_step ::
  "TokenTypeParser \<Rightarrow> nat \<Rightarrow> string \<Rightarrow> TokenTypeParser Outcome" where
  \<open>TokenTypeParser_step p c bytes =
     (case tt_state p of
        TokenTypeState_Start \<Rightarrow>
          (if c = 65279 then Next (p\<lparr>tt_state := TokenTypeState_WaitingForStartOfToken\<rparr>)
           else tt_waiting p c bytes)
      | TokenTypeState_WaitingForStartOfToken \<Rightarrow> tt_waiting p c bytes
      | TokenTypeState_Lt \<Rightarrow>
          (if bytes = ''?'' then tt_found p TokenType_ProcessingInstruction []
           else if bytes = ''!'' then Next (p\<lparr>tt_state := TokenTypeState_LtBang\<rparr>)
           else if bytes = ''/'' then tt_found p TokenType_EndOfElement []
           else if isNameStartChar c then tt_found p TokenType_StartOfElement bytes
           else tt_failed p)
      | TokenTypeState_LtBang \<Rightarrow>
          (if bytes = ''-'' then Next (p\<lparr>tt_state := TokenTypeState_LtBangDash\<rparr>)
           else if bytes = ''['' then Next (p\<lparr>tt_state := TokenTypeState_CDataPrefix 1\<rparr>)
           else tt_found p TokenType_DocumentType bytes)
      | TokenTypeState_LtBangDash \<Rightarrow>
          (if bytes = ''-'' then tt_found p TokenType_Comment ''--''
           else tt_found p TokenType_DocumentType (''-'' @ bytes))
      | TokenTypeState_CDataPrefix k \<Rightarrow>
          (if k < 7 \<and> bytes = [''[CDATA['' ! k] then
             (if k = 6 then tt_found p TokenType_CData ''[CDATA[''
              else Next (p\<lparr>tt_state := TokenTypeState_CDataPrefix (Suc k)\<rparr>))
           else tt_found p TokenType_DocumentType (take k ''[CDATA['' @ bytes))
      | TokenTypeState_Finished \<Rightarrow> tt_failed p
      | TokenTypeState_Error \<Rightarrow> tt_failed p)\<close>


subsection \<open>The processing instruction parser\<close>

text \<open>
  Modelled from the spec: the XML declaration's attribute-like sequence
  \<open>version=... [encoding=...] [standalone=...]\<close>, read from the text between the
  target and \<open>?>\<close>: attributes of the form name, \<open>=\<close>, quote, value, matching quote,
  separated by whitespace, in this order, \<open>version\<close> required, \<open>standalone\<close> one of
  \<open>yes\<close> and \<open>no\<close>.
\<close>

definition isWhitespaceChar :: "char \<Rightarrow> bool" where
  "isWhitespaceChar c \<longleftrightarrow> isWhitespace (of_char c)"

definition isLetter :: "char \<Rightarrow> bool" where
  "isLetter c \<longleftrightarrow> (let n = (of_char c :: nat) in (65 \<le> n \<and> n \<le> 90) \<or> (97 \<le> n \<and> n \<le> 122))"

definition readAttribute :: "string \<Rightarrow> ((string \<times> string) \<times> string) option" where
  \<open>readAttribute s =
     (let n = takeWhile isLetter s in
      case dropWhile isLetter s of
        e # q # r \<Rightarrow>
          if n \<noteq> [] \<and> e = CHR ''='' \<and> (q = CHR 0x27 \<or> q = CHR 0x22) then
            (case dropWhile (\<lambda>c. c \<noteq> q) r of
               [] \<Rightarrow> None
             | _ # rest \<Rightarrow> Some ((n, takeWhile (\<lambda>c. c \<noteq> q) r), rest))
          else None
      | _ \<Rightarrow> None)\<close>

lemma readAttribute_shorter:
  "readAttribute s = Some (a, rest) \<Longrightarrow> length rest < length s"
proof -
  assume a: "readAttribute s = Some (a, rest)"
  have d: "length (dropWhile P xs) \<le> length xs" for P and xs :: string
    by (induction xs) auto
  from a obtain e q r where 1: "dropWhile isLetter s = e # q # r"
    and 2: "length rest < length (dropWhile (\<lambda>c. c \<noteq> q) r) + 1"
    by (auto simp: readAttribute_def Let_def split: list.splits if_splits)
  from d[of "\<lambda>c. c \<noteq> q" r] d[of isLetter s] 1 2 show ?thesis by simp
qed

function readAttributes :: "string \<Rightarrow> (string \<times> string) list option" where
  "readAttributes s =
     (let s1 = dropWhile isWhitespaceChar s in
      if s1 = [] then Some []
      else
        (case readAttribute s1 of
           None \<Rightarrow> None
         | Some (a, rest) \<Rightarrow>
             if rest \<noteq> [] \<and> \<not> isWhitespaceChar (hd rest) then None
             else map_option ((#) a) (readAttributes rest)))"
  by pat_completeness auto
termination
proof (relation "measure length")
  show "wf (measure length)" by simp
next
  fix s s1 :: string and x2 a rest
  assume "s1 = dropWhile isWhitespaceChar s" "readAttribute s1 = Some x2" "(a, rest) = x2"
  then have "length rest < length s1" by (auto dest: readAttribute_shorter)
  moreover have "length s1 \<le> length s"
    unfolding \<open>s1 = dropWhile isWhitespaceChar s\<close> by (induction s) auto
  ultimately show "(rest, s) \<in> measure length" by simp
qed

declare readAttributes.simps [simp del]

definition readStandalone :: "string \<Rightarrow> Tri option" where
  "readStandalone s =
     (if s = ''yes'' then Some Tri_Yes else if s = ''no'' then Some Tri_No else None)"

definition readXmlDeclaration :: "string \<Rightarrow> XmlDeclaration option" where
  "readXmlDeclaration s =
     (case readAttributes s of
        Some [(n1, v1)] \<Rightarrow>
          if n1 = ''version''
          then Some \<lparr>version = v1, encoding = None, standalone = None\<rparr> else None
      | Some [(n1, v1), (n2, v2)] \<Rightarrow>
          if n1 = ''version'' \<and> n2 = ''encoding''
          then Some \<lparr>version = v1, encoding = Some v2, standalone = None\<rparr>
          else if n1 = ''version'' \<and> n2 = ''standalone'' \<and> readStandalone v2 \<noteq> None
          then Some \<lparr>version = v1, encoding = None, standalone = readStandalone v2\<rparr>
          else None
      | Some [(n1, v1), (n2, v2), (n3, v3)] \<Rightarrow>
          if n1 = ''version'' \<and> n2 = ''encoding'' \<and> n3 = ''standalone'' \<and>
             readStandalone v3 \<noteq> None
          then Some \<lparr>version = v1, encoding = Some v2, standalone = readStandalone v3\<rparr>
          else None
      | _ \<Rightarrow> None)"

text \<open>
  Modelled from the spec: \<open>ProcessingInstructionParser\<close>. It reads the target, a
  name; the whitespace after it; then the text up to \<open>?>\<close> (which may be empty). A
  target that is \<open>xml\<close> when put in lower case makes the token an XML declaration,
  whose attributes are read from that text; any other target makes it a processing
  instruction. The data of a processing instruction are that text, unchanged, without
  the whitespace that precedes \<open>?>\<close>: the specification's first scenario gives
  \<open><?pitarget   pidata   ?>\<close> the data \<open>pidata\<close>.
\<close>

datatype ProcessingInstructionState =
    ProcessingInstructionState_ReadingPiTarget
  | ProcessingInstructionState_PiTargetEnd
  | ProcessingInstructionState_SkippingWhitespace
  | ProcessingInstructionState_ReadingPiData
  | ProcessingInstructionState_PiDataEnd
  | ProcessingInstructionState_Finished
  | ProcessingInstructionState_Error

record ProcessingInstructionParser =
  pi_state :: ProcessingInstructionState
  pi_target :: string
  pi_data :: string
  pi_tokenFound :: TokenType
  pi_processingInstruction :: ProcessingInstruction
  pi_xmlDeclaration :: XmlDeclaration

definition ProcessingInstructionParser_new :: ProcessingInstructionParser where
  "ProcessingInstructionParser_new =
     \<lparr>pi_state = ProcessingInstructionState_ReadingPiTarget, pi_target = [], pi_data = [],
      pi_tokenFound = TokenType_None,
      pi_processingInstruction = ProcessingInstruction_clear,
      pi_xmlDeclaration = XmlDeclaration_clear\<rparr>"

definition toLower :: "string \<Rightarrow> string" where
  "toLower s =
     map (\<lambda>c. if 65 \<le> (of_char c :: nat) \<and> (of_char c :: nat) \<le> 90
              then char_of ((of_char c :: nat) + 32) else c) s"

definition withoutTrailingWhitespace :: "string \<Rightarrow> string" where
  "withoutTrailingWhitespace s = rev (dropWhile isWhitespaceChar (rev s))"

definition pi_failed :: "ProcessingInstructionParser \<Rightarrow> ProcessingInstructionParser Outcome" where
  "pi_failed p = Fail (p\<lparr>pi_state := ProcessingInstructionState_Error\<rparr>)"

definition pi_finished :: "ProcessingInstructionParser \<Rightarrow> ProcessingInstructionParser Outcome" where
  "pi_finished p =
     (if toLower (pi_target p) = ''xml'' then
        (case readXmlDeclaration (pi_data p) of
           None \<Rightarrow> pi_failed p
         | Some x \<Rightarrow>
             Done (p\<lparr>pi_state := ProcessingInstructionState_Finished,
                     pi_tokenFound := TokenType_XmlDeclaration,
                     pi_xmlDeclaration := x\<rparr>) [])
      else
        Done (p\<lparr>pi_state := ProcessingInstructionState_Finished,
                pi_tokenFound := TokenType_ProcessingInstruction,
                pi_processingInstruction :=
                  \<lparr>piTarget = pi_target p,
                   piData = withoutTrailingWhitespace (pi_data p)\<rparr>\<rparr>) [])"

definition ProcessingInstructionParser_step ::
  "ProcessingInstructionParser \<Rightarrow> nat \<Rightarrow> string \<Rightarrow> ProcessingInstructionParser Outcome" where
  \<open>ProcessingInstructionParser_step p c bytes =
     (case pi_state p of
        ProcessingInstructionState_ReadingPiTarget \<Rightarrow>
          (if pi_target p = [] then
             (if isNameStartChar c then Next (p\<lparr>pi_target := bytes\<rparr>) else pi_failed p)
           else if isNameChar c then Next (p\<lparr>pi_target := pi_target p @ bytes\<rparr>)
           else if isWhitespace c
           then Next (p\<lparr>pi_state := ProcessingInstructionState_SkippingWhitespace\<rparr>)
           else if bytes = ''?''
           then Next (p\<lparr>pi_state := ProcessingInstructionState_PiTargetEnd\<rparr>)
           else pi_failed p)
      | ProcessingInstructionState_PiTargetEnd \<Rightarrow>
          (if bytes = ''>'' then pi_finished p else pi_failed p)
      | ProcessingInstructionState_SkippingWhitespace \<Rightarrow>
          (if isWhitespace c then Next p
           else if bytes = ''?''
           then Next (p\<lparr>pi_state := ProcessingInstructionState_PiDataEnd\<rparr>)
           else Next (p\<lparr>pi_state := ProcessingInstructionState_ReadingPiData,
                        pi_data := bytes\<rparr>))
      | ProcessingInstructionState_ReadingPiData \<Rightarrow>
          (if bytes = ''?''
           then Next (p\<lparr>pi_state := ProcessingInstructionState_PiDataEnd\<rparr>)
           else Next (p\<lparr>pi_data := pi_data p @ bytes\<rparr>))
      | ProcessingInstructionState_PiDataEnd \<Rightarrow>
          (if bytes = ''>'' then pi_finished p
           else if bytes = ''?'' then Next (p\<lparr>pi_data := pi_data p @ ''?''\<rparr>)
           else Next (p\<lparr>pi_state := ProcessingInstructionState_ReadingPiData,
                        pi_data := pi_data p @ ''?'' @ bytes\<rparr>))
      | ProcessingInstructionState_Finished \<Rightarrow> pi_failed p
      | ProcessingInstructionState_Error \<Rightarrow> pi_failed p)\<close>

subsection \<open>Validity of the tokens\<close>

text \<open>
  Modelled from the spec: an XML declaration is valid iff its version is \<open>1.0\<close> and
  its encoding, if present, is an encoding name \<open>[A-Za-z][A-Za-z0-9._-]*\<close>; the target
  of a processing instruction must be an XML name, and its lowercased form must not be
  \<open>xml\<close>.
\<close>

function codePoints :: "string \<Rightarrow> nat list option" where
  "codePoints b =
     (if b = [] then Some []
      else
        (case utf8_decode b of
           Utf_Success c n \<Rightarrow> map_option ((#) c) (codePoints (drop n b))
         | _ \<Rightarrow> None))"
  by pat_completeness auto
termination
  by (relation "measure length") (auto dest: utf8_decode_length)

declare codePoints.simps [simp del]

definition isName :: "string \<Rightarrow> bool" where
  "isName s =
     (case codePoints s of
        Some (c # cs) \<Rightarrow> isNameStartChar c \<and> list_all isNameChar cs
      | _ \<Rightarrow> False)"

definition isEncodingName :: "string \<Rightarrow> bool" where
  "isEncodingName s =
     (case s of
        [] \<Rightarrow> False
      | c # cs \<Rightarrow>
          isLetter c \<and>
          list_all (\<lambda>c. isLetter c \<or> (48 \<le> (of_char c :: nat) \<and> (of_char c :: nat) \<le> 57) \<or>
                        c = CHR ''.'' \<or> c = CHR ''_'' \<or> c = CHR ''-'') cs)"

definition XmlDeclaration_isValid :: "XmlDeclaration \<Rightarrow> bool" where
  "XmlDeclaration_isValid x \<longleftrightarrow>
     version x = ''1.0'' \<and> (case encoding x of None \<Rightarrow> True | Some e \<Rightarrow> isEncodingName e)"

definition ProcessingInstruction_isValid :: "ProcessingInstruction \<Rightarrow> bool" where
  "ProcessingInstruction_isValid i \<longleftrightarrow> isName (piTarget i) \<and> toLower (piTarget i) \<noteq> ''xml''"

subsection \<open>The collaborators\<close>

text \<open>
  The two parser classes under their base class. A parser made by \<open>new\<close> is valid; a
  new option makes the token type parser start on the next item.
\<close>

datatype TokenParser =
    TokenParser_TokenType TokenTypeParser
  | TokenParser_ProcessingInstruction ProcessingInstructionParser

definition TokenParser_parse ::
  "TokenParser \<Rightarrow> ParsingBuffer \<Rightarrow> Result \<times> TokenParser \<times> ParsingBuffer" where
  "TokenParser_parse p b =
     (case p of
        TokenParser_TokenType t \<Rightarrow>
          (case drive TokenTypeParser_step t b of
             (res, t1, b1) \<Rightarrow> (res, TokenParser_TokenType t1, b1))
      | TokenParser_ProcessingInstruction q \<Rightarrow>
          (case drive ProcessingInstructionParser_step q b of
             (res, q1, b1) \<Rightarrow> (res, TokenParser_ProcessingInstruction q1, b1)))"

definition TokenParser_tokenFound :: "TokenParser \<Rightarrow> TokenType" where
  "TokenParser_tokenFound p =
     (case p of
        TokenParser_TokenType t \<Rightarrow> tt_tokenFound t
      | TokenParser_ProcessingInstruction q \<Rightarrow> pi_tokenFound q)"

definition TokenParser_setOption :: "Option \<Rightarrow> TokenParser \<Rightarrow> bool \<times> TokenParser" where
  "TokenParser_setOption opt p =
     (case p of
        TokenParser_TokenType t \<Rightarrow>
          (True, TokenParser_TokenType
                   (t\<lparr>tt_option := opt, tt_state := TokenTypeState_WaitingForStartOfToken,
                      tt_tokenFound := TokenType_None\<rparr>))
      | TokenParser_ProcessingInstruction q \<Rightarrow> (opt = Option_None, p))"

definition specCollaborators :: "(TokenParser, ParsingBuffer) Collaborators" where
  "specCollaborators =
     \<lparr>newTokenTypeParser = (\<lambda>opt. TokenParser_TokenType (TokenTypeParser_new opt)),
      newProcessingInstructionParser =
        TokenParser_ProcessingInstruction ProcessingInstructionParser_new,
      isValid = (\<lambda>p. True),
      tokenParser_parse = TokenParser_parse,
      tokenFound = TokenParser_tokenFound,
      setOption = TokenParser_setOption,
      isProcessingInstructionParser =
        (\<lambda>p. case p of TokenParser_ProcessingInstruction q \<Rightarrow> True | _ \<Rightarrow> False),
      parser_processingInstruction =
        (\<lambda>p. case p of TokenParser_ProcessingInstruction q \<Rightarrow> pi_processingInstruction q
              | _ \<Rightarrow> ProcessingInstruction_clear),
      parser_xmlDeclaration =
        (\<lambda>p. case p of TokenParser_ProcessingInstruction q \<Rightarrow> pi_xmlDeclaration q
              | _ \<Rightarrow> XmlDeclaration_clear),
      processingInstruction_isValid = ProcessingInstruction_isValid,
      xmlDeclaration_isValid = XmlDeclaration_isValid,
      buffer_writeData = ParsingBuffer_writeData,
      buffer_clear = ParsingBuffer_clear,
      buffer_eraseToCurrentPosition = ParsingBuffer_eraseToCurrentPosition\<rparr>"

text \<open>The reader as its constructor leaves it.\<close>

definition XmlReader_new :: "(TokenParser, ParsingBuffer) XmlReader" where
  "XmlReader_new =
     clear specCollaborators
       \<lparr>m_documentState = DocumentState_PrologWaitForXmlDeclaration,
        m_parsingState = ParsingState_Idle, m_lastParsingResult = ParsingResult_None,
        m_parsingBuffer = [], m_xmlDeclaration = XmlDeclaration_clear,
        m_processingInstruction = ProcessingInstruction_clear, m_tokenParser = None\<rparr>"

section \<open>Running the reader\<close>

subsection \<open>One call of \<open>parse\<close>, cycle by cycle\<close>

lemma parse_Idle:
  assumes "m_parsingState r = ParsingState_Idle"
    and "isValid C (newTokenTypeParser C Option_None)"
  shows "parse C r =
           parse C (r\<lparr>m_tokenParser := Some (newTokenTypeParser C Option_None),
                      m_documentState := DocumentState_PrologWaitForXmlDeclaration,
                      m_parsingState := ParsingState_ReadingTokenType\<rparr>)"
  using assms
  by (simp add: parse_def parse_loop.simps[of C _ r] parse_cycle_def setTokenParser_def)

lemma parse_TokenRead:
  assumes "m_parsingState r = ParsingState_ProcessingInstructionRead \<or>
           m_parsingState r = ParsingState_XmlDeclarationRead"
    and "isValid C (newTokenTypeParser C Option_IgnoreLeadingWhitespace)"
  shows "parse C r =
           parse C (r\<lparr>m_tokenParser := Some (newTokenTypeParser C Option_IgnoreLeadingWhitespace),
                      m_parsingState := ParsingState_ReadingTokenType\<rparr>)"
  using assms
  by (auto simp: parse_def parse_loop.simps[of C _ r] parse_cycle_def setTokenParser_def)

lemma parse_TokenType_NeedMoreData:
  assumes "m_parsingState r = ParsingState_ReadingTokenType"
    and "m_tokenParser r = Some p"
    and "tokenParser_parse C p (m_parsingBuffer r) = (Result_NeedMoreData, p1, b1)"
  shows "parse C r =
           Some (ParsingResult_NeedMoreData,
                 r\<lparr>m_tokenParser := Some p1, m_parsingBuffer := b1,
                   m_parsingState := ParsingState_ReadingTokenType,
                   m_lastParsingResult := ParsingResult_NeedMoreData\<rparr>)"
  using assms
  by (simp add: parse_def parse_loop.simps[of C _ r] parse_cycle_def
      executeParsingStateReadingTokenType_def readingTokenType_loop.simps[of C _ r]
      readingTokenType_cycle_def)

lemma parse_TokenType_Whitespace:
  assumes "m_parsingState r = ParsingState_ReadingTokenType"
    and "m_tokenParser r = Some p"
    and "tokenParser_parse C p (m_parsingBuffer r) = (Result_Success, p1, b1)"
    and "tokenFound C p1 = TokenType_Whitespace"
    and "setOption C Option_IgnoreLeadingWhitespace p1 = (True, p2)"
  shows "parse C r =
           parse C (r\<lparr>m_tokenParser := Some p2, m_parsingBuffer := b1,
                      m_documentState :=
                        (if m_documentState r = DocumentState_PrologWaitForXmlDeclaration
                         then DocumentState_PrologWaitForDocumentType else m_documentState r)\<rparr>)"
proof -
  let ?r1 = "r\<lparr>m_tokenParser := Some p2, m_parsingBuffer := b1,
                m_documentState :=
                  (if m_documentState r = DocumentState_PrologWaitForXmlDeclaration
                   then DocumentState_PrologWaitForDocumentType else m_documentState r)\<rparr>"
  have c: "readingTokenType_cycle C ParsingState_Error r = Some (AnotherCycle ?r1)"
    using assms(2-5) by (simp add: readingTokenType_cycle_def)
  have "executeParsingStateReadingTokenType C r = executeParsingStateReadingTokenType C ?r1"
    unfolding executeParsingStateReadingTokenType_def
    by (subst readingTokenType_loop.simps) (simp add: c)
  with assms(1) show ?thesis
    by (simp add: parse_def parse_loop.simps[of C _ r] parse_loop.simps[of C _ ?r1] parse_cycle_def)
qed

lemma parse_TokenType_ProcessingInstruction:
  assumes "m_parsingState r = ParsingState_ReadingTokenType"
    and "m_tokenParser r = Some p"
    and "tokenParser_parse C p (m_parsingBuffer r) = (Result_Success, p1, b1)"
    and "tokenFound C p1 = TokenType_ProcessingInstruction"
    and "isValid C (newProcessingInstructionParser C)"
  shows "parse C r =
           parse C (r\<lparr>m_tokenParser := Some (newProcessingInstructionParser C),
                      m_parsingBuffer := b1,
                      m_parsingState := ParsingState_ReadingProcessingInstruction\<rparr>)"
proof -
  let ?r1 = "r\<lparr>m_tokenParser := Some (newProcessingInstructionParser C),
                m_parsingBuffer := b1,
                m_parsingState := ParsingState_ReadingProcessingInstruction\<rparr>"
  have "parse_cycle C ParsingResult_Error r = Some (AnotherCycle ?r1)"
    using assms
    by (simp add: parse_cycle_def executeParsingStateReadingTokenType_def
        readingTokenType_loop.simps[of C _ r] readingTokenType_cycle_def setTokenParser_def
        readsToken_def)
  then show ?thesis
    by (simp add: parse_def parse_loop.simps[of C _ r])
qed

lemma parse_ProcessingInstruction_NeedMoreData:
  assumes "m_parsingState r = ParsingState_ReadingProcessingInstruction"
    and "m_tokenParser r = Some p"
    and "tokenParser_parse C p (m_parsingBuffer r) = (Result_NeedMoreData, p1, b1)"
  shows "parse C r =
           Some (ParsingResult_NeedMoreData,
                 r\<lparr>m_tokenParser := Some p1, m_parsingBuffer := b1,
                   m_parsingState := ParsingState_ReadingProcessingInstruction,
                   m_lastParsingResult := ParsingResult_NeedMoreData\<rparr>)"
  using assms
  by (simp add: parse_def parse_loop.simps[of C _ r] parse_cycle_def
      executeParsingStateReadingProcessingInstruction_def)

lemma parse_ProcessingInstruction_read:
  assumes "m_parsingState r = ParsingState_ReadingProcessingInstruction"
    and "m_tokenParser r = Some p"
    and "tokenParser_parse C p (m_parsingBuffer r) = (Result_Success, p1, b1)"
    and "tokenFound C p1 = TokenType_ProcessingInstruction"
    and "isProcessingInstructionParser C p1"
    and "processingInstruction_isValid C (parser_processingInstruction C p1)"
  shows "parse C r =
           Some (ParsingResult_ProcessingInstruction,
                 r\<lparr>m_tokenParser := Some p1, m_parsingBuffer := b1,
                   m_processingInstruction := parser_processingInstruction C p1,
                   m_documentState :=
                     (if m_documentState r = DocumentState_PrologWaitForXmlDeclaration
                      then DocumentState_PrologWaitForDocumentType else m_documentState r),
                   m_parsingState := ParsingState_ProcessingInstructionRead,
                   m_lastParsingResult := ParsingResult_ProcessingInstruction\<rparr>)"
  using assms
  by (simp add: parse_def parse_loop.simps[of C _ r] parse_cycle_def
      executeParsingStateReadingProcessingInstruction_def)

lemma parse_XmlDeclaration_read:
  assumes "m_parsingState r = ParsingState_ReadingProcessingInstruction"
    and "m_tokenParser r = Some p"
    and "tokenParser_parse C p (m_parsingBuffer r) = (Result_Success, p1, b1)"
    and "tokenFound C p1 = TokenType_XmlDeclaration"
    and "m_documentState r = DocumentState_PrologWaitForXmlDeclaration"
    and "isProcessingInstructionParser C p1"
    and "xmlDeclaration_isValid C (parser_xmlDeclaration C p1)"
  shows "parse C r =
           Some (ParsingResult_XmlDeclaration,
                 r\<lparr>m_tokenParser := Some p1, m_parsingBuffer := b1,
                   m_xmlDeclaration := parser_xmlDeclaration C p1,
                   m_documentState := DocumentState_PrologWaitForDocumentType,
                   m_parsingState := ParsingState_XmlDeclarationRead,
                   m_lastParsingResult := ParsingResult_XmlDeclaration\<rparr>)"
  using assms
  by (simp add: parse_def parse_loop.simps[of C _ r] parse_cycle_def
      executeParsingStateReadingProcessingInstruction_def)

lemma parse_Comment:
  assumes "m_parsingState r = ParsingState_ReadingTokenType"
    and "m_tokenParser r = Some p"
    and "tokenParser_parse C p (m_parsingBuffer r) = (Result_Success, p1, b1)"
    and "tokenFound C p1 = TokenType_Comment"
  shows "parse C r = Some (ParsingResult_Error,
           r\<lparr>m_tokenParser := Some p1, m_parsingBuffer := b1,
             m_documentState :=
               (if m_documentState r = DocumentState_PrologWaitForXmlDeclaration
                then DocumentState_PrologWaitForDocumentType else m_documentState r),
             m_parsingState := ParsingState_Error, m_lastParsingResult := ParsingResult_Error\<rparr>)"
proof -
  let ?r0 = "r\<lparr>m_tokenParser := Some p1, m_parsingBuffer := b1,
               m_documentState :=
                 (if m_documentState r = DocumentState_PrologWaitForXmlDeclaration
                  then DocumentState_PrologWaitForDocumentType else m_documentState r)\<rparr>"
  let ?r1 = "?r0\<lparr>m_parsingState := ParsingState_ReadingComment\<rparr>"
  have "readingTokenType_loop C ParsingState_Error r = Some (ParsingState_ReadingComment, ?r0)"
    using assms(2-4)
    by (simp add: readingTokenType_loop.simps[of C _ r] readingTokenType_cycle_def)
  then have c: "parse_cycle C ParsingResult_Error r = Some (AnotherCycle ?r1)"
    using assms(1)
    by (simp add: parse_cycle_def executeParsingStateReadingTokenType_def readsToken_def)
  have "parse_loop C ParsingResult_Error ?r1 =
          Some (ParsingResult_Error, ?r1\<lparr>m_parsingState := ParsingState_Error\<rparr>)"
    by (simp add: parse_loop.simps[of C _ ?r1] parse_cycle_def)
  with c show ?thesis
    by (simp add: parse_def parse_loop.simps[of C _ r])
qed

subsection \<open>Running the parsers of the specification\<close>

lemma utf8_decode_ascii:
  "(of_char c :: nat) < 128 \<Longrightarrow> utf8_decode (c # cs) = Utf_Success (of_char c) 1"
  by (simp add: utf8_decode_def utf8_sequenceLength_def)

lemma drive_Nil: "drive step s [] = (Result_NeedMoreData, s, [])"
  by (simp add: drive.simps[of step s "[]"] utf8_decode_def)

lemma drive_ascii:
  "(of_char c :: nat) < 128 \<Longrightarrow>
   drive step s (c # cs) =
     (case step s (of_char c) [c] of
        Next s1 \<Rightarrow> drive step s1 cs
      | Done s1 back \<Rightarrow> (Result_Success, s1, back @ cs)
      | Fail s1 \<Rightarrow> (Result_Error, s1, cs))"
  by (simp add: drive.simps[of step s "c # cs"] utf8_decode_ascii split: Outcome.splits)

lemmas tt_eval = drive_Nil drive_ascii TokenTypeParser_step_def tt_waiting_def tt_found_def
  tt_failed_def isWhitespace_def isNameStartChar_def TokenTypeParser_new_def

lemmas pi_eval = drive_Nil drive_ascii ProcessingInstructionParser_step_def pi_finished_def
  pi_failed_def isWhitespace_def isNameStartChar_def isNameChar_def
  ProcessingInstructionParser_new_def toLower_def readXmlDeclaration_def readAttributes.simps
  readAttribute_def isWhitespaceChar_def isLetter_def readStandalone_def
  withoutTrailingWhitespace_def

lemma specCollaborators_simps [simp]:
  "newTokenTypeParser specCollaborators opt = TokenParser_TokenType (TokenTypeParser_new opt)"
  "newProcessingInstructionParser specCollaborators =
     TokenParser_ProcessingInstruction ProcessingInstructionParser_new"
  "isValid specCollaborators p = True"
  "tokenParser_parse specCollaborators = TokenParser_parse"
  "tokenFound specCollaborators = TokenParser_tokenFound"
  "setOption specCollaborators = TokenParser_setOption"
  "isProcessingInstructionParser specCollaborators (TokenParser_ProcessingInstruction q) = True"
  "isProcessingInstructionParser specCollaborators (TokenParser_TokenType t) = False"
  "parser_processingInstruction specCollaborators (TokenParser_ProcessingInstruction q) =
     pi_processingInstruction q"
  "parser_xmlDeclaration specCollaborators (TokenParser_ProcessingInstruction q) =
     pi_xmlDeclaration q"
  "processingInstruction_isValid specCollaborators = ProcessingInstruction_isValid"
  "xmlDeclaration_isValid specCollaborators = XmlDeclaration_isValid"
  "buffer_writeData specCollaborators = ParsingBuffer_writeData"
  "buffer_clear specCollaborators = ParsingBuffer_clear"
  "buffer_eraseToCurrentPosition specCollaborators = ParsingBuffer_eraseToCurrentPosition"
  by (simp_all add: specCollaborators_def)

lemma TokenParser_simps [simp]:
  "TokenParser_parse (TokenParser_TokenType t) b =
     (case drive TokenTypeParser_step t b of
        (res, t1, b1) \<Rightarrow> (res, TokenParser_TokenType t1, b1))"
  "TokenParser_parse (TokenParser_ProcessingInstruction q) b =
     (case drive ProcessingInstructionParser_step q b of
        (res, q1, b1) \<Rightarrow> (res, TokenParser_ProcessingInstruction q1, b1))"
  "TokenParser_tokenFound (TokenParser_TokenType t) = tt_tokenFound t"
  "TokenParser_tokenFound (TokenParser_ProcessingInstruction q) = pi_tokenFound q"
  "TokenParser_setOption opt (TokenParser_TokenType t) =
     (True, TokenParser_TokenType
              (t\<lparr>tt_option := opt, tt_state := TokenTypeState_WaitingForStartOfToken,
                 tt_tokenFound := TokenType_None\<rparr>))"
  by (simp_all add: TokenParser_parse_def TokenParser_tokenFound_def TokenParser_setOption_def)

text \<open>A new reader that has been given the bytes \<open>d\<close>.\<close>

definition written :: "string \<Rightarrow> (TokenParser, ParsingBuffer) XmlReader" where
  "written d = snd (writeData specCollaborators d XmlReader_new)"

lemma written_eq:
  "written d =
     \<lparr>m_documentState = DocumentState_PrologWaitForXmlDeclaration,
      m_parsingState = ParsingState_Idle, m_lastParsingResult = ParsingResult_None,
      m_parsingBuffer = d, m_xmlDeclaration = XmlDeclaration_clear,
      m_processingInstruction = ProcessingInstruction_clear, m_tokenParser = None\<rparr>"
  by (simp add: written_def writeData_def XmlReader_new_def clear_def startNewDocument_def
      ParsingBuffer_writeData_def ParsingBuffer_clear_def ParsingBuffer_eraseToCurrentPosition_def)

text \<open>The first call of \<open>parse\<close> on a new reader whose data start an element.\<close>

lemma parse_written_StartOfElement:
  assumes "drive TokenTypeParser_step (TokenTypeParser_new Option_None) d = (Result_Success, t1, b1)"
    and "tt_tokenFound t1 = TokenType_StartOfElement"
  shows "parse specCollaborators (written d) =
           Some (ParsingResult_Error,
                 (written d)\<lparr>m_tokenParser := Some (TokenParser_TokenType t1),
                   m_parsingBuffer := b1, m_parsingState := ParsingState_Error,
                   m_lastParsingResult := ParsingResult_Error\<rparr>)"
proof -
  let ?r = "(written d)\<lparr>m_tokenParser := Some (newTokenTypeParser specCollaborators Option_None),
                      m_documentState := DocumentState_PrologWaitForXmlDeclaration,
                      m_parsingState := ParsingState_ReadingTokenType\<rparr>"
  have "parse specCollaborators (written d) = parse specCollaborators ?r"
    by (rule parse_Idle) (simp_all add: written_eq)
  also have "\<dots> = Some (ParsingResult_Error,
                 ?r\<lparr>m_tokenParser := Some (TokenParser_TokenType t1),
                   m_parsingBuffer := b1, m_parsingState := ParsingState_Error,
                   m_lastParsingResult := ParsingResult_Error\<rparr>)"
    by (rule parse_StartOfElement[where p = "TokenParser_TokenType (TokenTypeParser_new Option_None)"])
       (simp_all add: written_eq assms)
  finally show ?thesis by (simp add: written_eq)
qed

lemma tokenType_StartOfElement_example:
  \<open>drive TokenTypeParser_step (TokenTypeParser_new Option_None) ''<a/>'' =
     (Result_Success,
      \<lparr>tt_option = Option_None, tt_state = TokenTypeState_Finished,
       tt_tokenFound = TokenType_StartOfElement\<rparr>, ''a/>'')\<close>
  by (simp add: tt_eval)

text \<open>
  C2. Once a call of \<open>parse\<close> has returned \<open>Error\<close>, every later call of \<open>parse\<close>
  returns \<open>Error\<close>, whatever is written in between; \<open>clear\<close> puts the reader in the
  parsing state \<open>Idle\<close> and the document state \<open>PrologWaitForXmlDeclaration\<close>.
\<close>

theorem parse_error_latched:
  "(parse C r = Some (ParsingResult_Error, r1) \<longrightarrow>
      (\<exists>r2. run C cs r1 = Some (replicate (parseCalls cs) ParsingResult_Error, r2) \<and>
            m_parsingState r2 = ParsingState_Error)) \<and>
   m_parsingState (clear C r) = ParsingState_Idle \<and>
   m_documentState (clear C r) = DocumentState_PrologWaitForXmlDeclaration"
proof (intro conjI impI)
  assume p: "parse C r = Some (ParsingResult_Error, r1)"
  from parse_result(1)[OF p] have "m_parsingState r1 = ParsingState_Error"
    by (rule finalResult_Error)
  then show "\<exists>r2. run C cs r1 = Some (replicate (parseCalls cs) ParsingResult_Error, r2) \<and>
            m_parsingState r2 = ParsingState_Error"
    by (rule run_in_Error)
qed (simp_all add: clear_def startNewDocument_def)

theorem parse_error_latched_witness:
  \<open>\<exists>r1 r2. parse specCollaborators (written ''<a/>'') = Some (ParsingResult_Error, r1) \<and>
     run specCollaborators [Call_parse, Call_writeData ''<?pi?>'', Call_parse] r1 =
       Some ([ParsingResult_Error, ParsingResult_Error], r2) \<and>
     m_parsingState r2 = ParsingState_Error \<and>
     m_parsingState (clear specCollaborators r2) = ParsingState_Idle\<close>
proof -
  from parse_written_StartOfElement[OF tokenType_StartOfElement_example]
  obtain r1 where p: "parse specCollaborators (written ''<a/>'') = Some (ParsingResult_Error, r1)"
    by simp
  from parse_error_latched[of specCollaborators "written ''<a/>''" r1
      "[Call_parse, Call_writeData ''<?pi?>'', Call_parse]"] p
  obtain r2 where
    "run specCollaborators [Call_parse, Call_writeData ''<?pi?>'', Call_parse] r1 =
       Some ([ParsingResult_Error, ParsingResult_Error], r2)"
    "m_parsingState r2 = ParsingState_Error"
    by (auto simp: parseCalls_def)
  moreover have "m_parsingState (clear specCollaborators r2) = ParsingState_Idle"
    using parse_error_latched[of specCollaborators r2] by simp
  ultimately show ?thesis using p by blast
qed

text \<open>
  A call of \<open>parse\<close> that reads a whole token, from a reader that is about to read a
  token type with the token type parser \<open>t\<close>.
\<close>

lemma parse_spec_ProcessingInstruction:
  assumes "m_parsingState r = ParsingState_ReadingTokenType"
    and "m_tokenParser r = Some (TokenParser_TokenType t)"
    and "drive TokenTypeParser_step t (m_parsingBuffer r) = (Result_Success, t1, b1)"
    and "tt_tokenFound t1 = TokenType_ProcessingInstruction"
    and "drive ProcessingInstructionParser_step ProcessingInstructionParser_new b1
           = (Result_Success, q1, b2)"
    and "pi_tokenFound q1 = TokenType_ProcessingInstruction"
    and "ProcessingInstruction_isValid (pi_processingInstruction q1)"
  shows "parse specCollaborators r =
           Some (ParsingResult_ProcessingInstruction,
                 r\<lparr>m_tokenParser := Some (TokenParser_ProcessingInstruction q1),
                   m_parsingBuffer := b2,
                   m_processingInstruction := pi_processingInstruction q1,
                   m_documentState :=
                     (if m_documentState r = DocumentState_PrologWaitForXmlDeclaration
                      then DocumentState_PrologWaitForDocumentType else m_documentState r),
                   m_parsingState := ParsingState_ProcessingInstructionRead,
                   m_lastParsingResult := ParsingResult_ProcessingInstruction\<rparr>)"
proof -
  let ?r1 = "r\<lparr>m_tokenParser := Some (newProcessingInstructionParser specCollaborators),
                m_parsingBuffer := b1,
                m_parsingState := ParsingState_ReadingProcessingInstruction\<rparr>"
  have "parse specCollaborators r = parse specCollaborators ?r1"
    by (rule parse_TokenType_ProcessingInstruction
          [where p = "TokenParser_TokenType t" and ?p1.0 = "TokenParser_TokenType t1"])
       (simp_all add: assms)
  also have "\<dots> = Some (ParsingResult_ProcessingInstruction,
                 ?r1\<lparr>m_tokenParser := Some (TokenParser_ProcessingInstruction q1),
                   m_parsingBuffer := b2,
                   m_processingInstruction :=
                     parser_processingInstruction specCollaborators
                       (TokenParser_ProcessingInstruction q1),
                   m_documentState :=
                     (if m_documentState ?r1 = DocumentState_PrologWaitForXmlDeclaration
                      then DocumentState_PrologWaitForDocumentType else m_documentState ?r1),
                   m_parsingState := ParsingState_ProcessingInstructionRead,
                   m_lastParsingResult := ParsingResult_ProcessingInstruction\<rparr>)"
    by (rule parse_ProcessingInstruction_read
          [where p = "TokenParser_ProcessingInstruction ProcessingInstructionParser_new"])
       (simp_all add: assms)
  finally show ?thesis by simp
qed

lemma parse_spec_XmlDeclaration:
  assumes "m_parsingState r = ParsingState_ReadingTokenType"
    and "m_tokenParser r = Some (TokenParser_TokenType t)"
    and "drive TokenTypeParser_step t (m_parsingBuffer r) = (Result_Success, t1, b1)"
    and "tt_tokenFound t1 = TokenType_ProcessingInstruction"
    and "drive ProcessingInstructionParser_step ProcessingInstructionParser_new b1
           = (Result_Success, q1, b2)"
    and "pi_tokenFound q1 = TokenType_XmlDeclaration"
    and "XmlDeclaration_isValid (pi_xmlDeclaration q1)"
    and "m_documentState r = DocumentState_PrologWaitForXmlDeclaration"
  shows "parse specCollaborators r =
           Some (ParsingResult_XmlDeclaration,
                 r\<lparr>m_tokenParser := Some (TokenParser_ProcessingInstruction q1),
                   m_parsingBuffer := b2,
                   m_xmlDeclaration := pi_xmlDeclaration q1,
                   m_documentState := DocumentState_PrologWaitForDocumentType,
                   m_parsingState := ParsingState_XmlDeclarationRead,
                   m_lastParsingResult := ParsingResult_XmlDeclaration\<rparr>)"
proof -
  let ?r1 = "r\<lparr>m_tokenParser := Some (newProcessingInstructionParser specCollaborators),
                m_parsingBuffer := b1,
                m_parsingState := ParsingState_ReadingProcessingInstruction\<rparr>"
  have "parse specCollaborators r = parse specCollaborators ?r1"
    by (rule parse_TokenType_ProcessingInstruction
          [where p = "TokenParser_TokenType t" and ?p1.0 = "TokenParser_TokenType t1"])
       (simp_all add: assms)
  also have "\<dots> = Some (ParsingResult_XmlDeclaration,
                 ?r1\<lparr>m_tokenParser := Some (TokenParser_ProcessingInstruction q1),
                   m_parsingBuffer := b2,
                   m_xmlDeclaration :=
                     parser_xmlDeclaration specCollaborators (TokenParser_ProcessingInstruction q1),
                   m_documentState := DocumentState_PrologWaitForDocumentType,
                   m_parsingState := ParsingState_XmlDeclarationRead,
                   m_lastParsingResult := ParsingResult_XmlDeclaration\<rparr>)"
    by (rule parse_XmlDeclaration_read
          [where p = "TokenParser_ProcessingInstruction ProcessingInstructionParser_new"])
       (simp_all add: assms)
  finally show ?thesis by simp
qed

text \<open>The states a reader that is about to read a token type is entered from.\<close>

lemma parse_written:
  "parse specCollaborators (written d) =
     parse specCollaborators
       ((written d)\<lparr>m_tokenParser := Some (TokenParser_TokenType (TokenTypeParser_new Option_None)),
          m_parsingState := ParsingState_ReadingTokenType\<rparr>)"
proof -
  have "parse specCollaborators (written d) =
          parse specCollaborators
            ((written d)\<lparr>m_tokenParser := Some (newTokenTypeParser specCollaborators Option_None),
               m_documentState := DocumentState_PrologWaitForXmlDeclaration,
               m_parsingState := ParsingState_ReadingTokenType\<rparr>)"
    by (rule parse_Idle) (simp_all add: written_eq)
  then show ?thesis by (simp add: written_eq)
qed

lemma parse_spec_TokenRead:
  assumes "m_parsingState r = ParsingState_ProcessingInstructionRead \<or>
           m_parsingState r = ParsingState_XmlDeclarationRead"
  shows "parse specCollaborators r =
           parse specCollaborators
             (r\<lparr>m_tokenParser :=
                   Some (TokenParser_TokenType (TokenTypeParser_new Option_IgnoreLeadingWhitespace)),
                m_parsingState := ParsingState_ReadingTokenType\<rparr>)"
  using parse_TokenRead[OF assms, of specCollaborators] by simp

subsection \<open>Examples\<close>

lemma tokenType_example_declaration:
  \<open>drive TokenTypeParser_step (TokenTypeParser_new Option_None)
     ''<?xml version='1.0' encoding='UTF-8' standalone='yes' ?><?pitarget   pidata   ?>'' =
     (Result_Success,
      \<lparr>tt_option = Option_None, tt_state = TokenTypeState_Finished,
       tt_tokenFound = TokenType_ProcessingInstruction\<rparr>,
      ''xml version='1.0' encoding='UTF-8' standalone='yes' ?><?pitarget   pidata   ?>'')\<close>
  by (simp add: tt_eval)

lemma processingInstruction_example_declaration:
  \<open>drive ProcessingInstructionParser_step ProcessingInstructionParser_new
     ''xml version='1.0' encoding='UTF-8' standalone='yes' ?><?pitarget   pidata   ?>'' =
     (Result_Success,
      \<lparr>pi_state = ProcessingInstructionState_Finished, pi_target = ''xml'',
       pi_data = ''version='1.0' encoding='UTF-8' standalone='yes' '',
       pi_tokenFound = TokenType_XmlDeclaration,
       pi_processingInstruction = ProcessingInstruction_clear,
       pi_xmlDeclaration =
         \<lparr>version = ''1.0'', encoding = Some ''UTF-8'', standalone = Some Tri_Yes\<rparr>\<rparr>,
      ''<?pitarget   pidata   ?>'')\<close>
  by (simp add: pi_eval)

lemma tokenType_example_instruction:
  \<open>drive TokenTypeParser_step (TokenTypeParser_new Option_IgnoreLeadingWhitespace)
     ''<?pitarget   pidata   ?>'' =
     (Result_Success,
      \<lparr>tt_option = Option_IgnoreLeadingWhitespace, tt_state = TokenTypeState_Finished,
       tt_tokenFound = TokenType_ProcessingInstruction\<rparr>,
      ''pitarget   pidata   ?>'')\<close>
  by (simp add: tt_eval)

lemma processingInstruction_example_instruction:
  \<open>drive ProcessingInstructionParser_step ProcessingInstructionParser_new
     ''pitarget   pidata   ?>'' =
     (Result_Success,
      \<lparr>pi_state = ProcessingInstructionState_Finished, pi_target = ''pitarget'',
       pi_data = ''pidata   '',
       pi_tokenFound = TokenType_ProcessingInstruction,
       pi_processingInstruction = \<lparr>piTarget = ''pitarget'', piData = ''pidata''\<rparr>,
       pi_xmlDeclaration = XmlDeclaration_clear\<rparr>,
      [])\<close>
  by (simp add: pi_eval)

lemma isName_example: "ProcessingInstruction_isValid \<lparr>piTarget = ''pitarget'', piData = d\<rparr>"
  by (simp add: ProcessingInstruction_isValid_def isName_def codePoints.simps utf8_decode_ascii
      isNameStartChar_def isNameChar_def toLower_def)

lemma isValid_example:
  "XmlDeclaration_isValid \<lparr>version = ''1.0'', encoding = Some ''UTF-8'', standalone = s\<rparr>"
  by (simp add: XmlDeclaration_isValid_def isEncodingName_def isLetter_def)

section \<open>Properties of the reader\<close>

lemma parse_error_latched_aux:
  assumes "parse C r = Some (ParsingResult_Error, r1)"
  shows "\<exists>r2. run C cs r1 = Some (replicate (parseCalls cs) ParsingResult_Error, r2) \<and>
              m_parsingState r2 = ParsingState_Error"
proof -
  from parse_result(1)[OF assms] have "m_parsingState r1 = ParsingState_Error"
    by (rule finalResult_Error)
  then show ?thesis by (rule run_in_Error)
qed

lemma run_root_declaration:
  \<open>parse specCollaborators (written ''<root/><?xml version='1.0'?>'') =
     Some (ParsingResult_Error,
           (written ''<root/><?xml version='1.0'?>'')
             \<lparr>m_tokenParser := Some (TokenParser_TokenType
                \<lparr>tt_option = Option_None, tt_state = TokenTypeState_Finished,
                 tt_tokenFound = TokenType_StartOfElement\<rparr>),
              m_parsingBuffer := ''root/><?xml version='1.0'?>'',
              m_parsingState := ParsingState_Error,
              m_lastParsingResult := ParsingResult_Error\<rparr>)\<close>
  by (rule parse_written_StartOfElement) (simp_all add: tt_eval)

text \<open>
  C3. \<open>parse\<close> returns \<open>XmlDeclaration\<close> only from a reader that is idle or whose
  document state is still \<open>PrologWaitForXmlDeclaration\<close>; in any other document state
  an XML declaration the token parser has read makes \<open>parse\<close> return \<open>Error\<close>, and once
  the reader has left that state no later call returns \<open>XmlDeclaration\<close>. For the
  input \<open><root/><?xml version='1.0'?>\<close> no XML declaration is surfaced: \<open>parse\<close>
  returns \<open>Error\<close>.
\<close>

theorem xmlDeclaration_only_first:
  \<open>(parse C r = Some (ParsingResult_XmlDeclaration, r1) \<longrightarrow>
      (m_parsingState r = ParsingState_Idle \<or>
       m_documentState r = DocumentState_PrologWaitForXmlDeclaration) \<and>
      m_documentState r1 = DocumentState_PrologWaitForDocumentType) \<and>
   (m_parsingState r = ParsingState_ReadingProcessingInstruction \<and>
    m_tokenParser r = Some p \<and>
    tokenParser_parse C p (m_parsingBuffer r) = (Result_Success, p1, b1) \<and>
    tokenFound C p1 = TokenType_XmlDeclaration \<and>
    m_documentState r \<noteq> DocumentState_PrologWaitForXmlDeclaration \<longrightarrow>
      (\<exists>r2. parse C r = Some (ParsingResult_Error, r2))) \<and>
   (m_parsingState r \<noteq> ParsingState_Idle \<and>
    m_documentState r \<noteq> DocumentState_PrologWaitForXmlDeclaration \<and>
    run C cs r = Some (ress, r3) \<longrightarrow> ParsingResult_XmlDeclaration \<notin> set ress) \<and>
   map_option fst
     (run specCollaborators
        [Call_writeData ''<root/><?xml version='1.0'?>'', Call_parse, Call_parse] XmlReader_new)
     = Some [ParsingResult_Error, ParsingResult_Error]\<close>
proof (intro conjI impI)
  assume p: "parse C r = Some (ParsingResult_XmlDeclaration, r1)"
  from parse_phase(2)[OF p]
  show "m_parsingState r = ParsingState_Idle \<or>
        m_documentState r = DocumentState_PrologWaitForXmlDeclaration"
    by (auto simp: startPhase_def split: if_splits)
  from parse_phase(2,3,4)[OF p]
  show "m_documentState r1 = DocumentState_PrologWaitForDocumentType"
    by (auto simp: phaseStep_def)
next
  assume "m_parsingState r = ParsingState_ReadingProcessingInstruction \<and>
    m_tokenParser r = Some p \<and>
    tokenParser_parse C p (m_parsingBuffer r) = (Result_Success, p1, b1) \<and>
    tokenFound C p1 = TokenType_XmlDeclaration \<and>
    m_documentState r \<noteq> DocumentState_PrologWaitForXmlDeclaration"
  then show "\<exists>r2. parse C r = Some (ParsingResult_Error, r2)"
    using parse_XmlDeclaration_late[of r p C p1 b1] by simp
next
  assume "m_parsingState r \<noteq> ParsingState_Idle \<and>
    m_documentState r \<noteq> DocumentState_PrologWaitForXmlDeclaration \<and>
    run C cs r = Some (ress, r3)"
  then show "ParsingResult_XmlDeclaration \<notin> set ress"
    using run_after_prolog[of r C cs ress r3] by simp
next
  let ?d = \<open>''<root/><?xml version='1.0'?>''\<close>
  from run_root_declaration obtain r1 where
    p: "parse specCollaborators (written ?d) = Some (ParsingResult_Error, r1)" by simp
  from parse_error_latched_aux[OF p, of "[Call_parse]"] obtain r2 where
    "run specCollaborators [Call_parse] r1 = Some ([ParsingResult_Error], r2)"
    by (auto simp: parseCalls_def)
  with p show "map_option fst
     (run specCollaborators [Call_writeData ?d, Call_parse, Call_parse] XmlReader_new)
     = Some [ParsingResult_Error, ParsingResult_Error]"
    by (simp add: written_def)
qed


theorem xmlDeclaration_after_root_counterexample:
  \<open>map_option fst (parse specCollaborators (written ''<root/><?xml version='1.0'?>''))
     = Some ParsingResult_Error \<and>
   map_option fst (parse specCollaborators (written ''<root/><?xml version='1.0'?>''))
     \<noteq> Some ParsingResult_StartOfElement\<close>
  by (simp add: run_root_declaration)

lemma tokenType_declaration:
  \<open>drive TokenTypeParser_step (TokenTypeParser_new opt) ''<?xml version='1.0'?>'' =
     (Result_Success,
      \<lparr>tt_option = opt, tt_state = TokenTypeState_Finished,
       tt_tokenFound = TokenType_ProcessingInstruction\<rparr>,
      ''xml version='1.0'?>'')\<close>
  by (cases opt) (simp_all add: tt_eval)

text \<open>The parser after it has read the XML declaration \<open><?xml version='1.0'?>\<close>.\<close>

definition declarationParser :: ProcessingInstructionParser where
  \<open>declarationParser =
     \<lparr>pi_state = ProcessingInstructionState_Finished, pi_target = ''xml'',
      pi_data = ''version='1.0'' @ [CHR 0x27],
      pi_tokenFound = TokenType_XmlDeclaration,
      pi_processingInstruction = ProcessingInstruction_clear,
      pi_xmlDeclaration = \<lparr>version = ''1.0'', encoding = None, standalone = None\<rparr>\<rparr>\<close>

lemma processingInstruction_declaration:
  \<open>drive ProcessingInstructionParser_step ProcessingInstructionParser_new
     ''xml version='1.0'?>'' = (Result_Success, declarationParser, [])\<close>
  by (simp add: pi_eval declarationParser_def)

lemma parse_declaration:
  \<open>parse specCollaborators (written ''<?xml version='1.0'?>'') =
     Some (ParsingResult_XmlDeclaration,
       \<lparr>m_documentState = DocumentState_PrologWaitForDocumentType,
        m_parsingState = ParsingState_XmlDeclarationRead,
        m_lastParsingResult = ParsingResult_XmlDeclaration,
        m_parsingBuffer = [],
        m_xmlDeclaration = \<lparr>version = ''1.0'', encoding = None, standalone = None\<rparr>,
        m_processingInstruction = ProcessingInstruction_clear,
        m_tokenParser = Some (TokenParser_ProcessingInstruction declarationParser)\<rparr>)\<close>
  unfolding parse_written
  by (subst parse_spec_XmlDeclaration
        [where t = "TokenTypeParser_new Option_None" and
           ?t1.0 = "\<lparr>tt_option = Option_None, tt_state = TokenTypeState_Finished,
                      tt_tokenFound = TokenType_ProcessingInstruction\<rparr>" and
           ?b1.0 = "''xml version='1.0'?>''" and ?q1.0 = declarationParser and ?b2.0 = "[]"])
     (simp_all add: written_eq tokenType_declaration processingInstruction_declaration,
      simp_all add: XmlDeclaration_isValid_def declarationParser_def)

text \<open>
  A reader that has read a processing instruction and the \<open><?\<close> of the next token, with
  an XML declaration in its buffer.
\<close>

definition lateDeclarationReader :: "(TokenParser, ParsingBuffer) XmlReader" where
  \<open>lateDeclarationReader =
     \<lparr>m_documentState = DocumentState_PrologWaitForDocumentType,
      m_parsingState = ParsingState_ReadingProcessingInstruction,
      m_lastParsingResult = ParsingResult_ProcessingInstruction,
      m_parsingBuffer = ''xml version='1.0'?>'',
      m_xmlDeclaration = XmlDeclaration_clear,
      m_processingInstruction = \<lparr>piTarget = ''pi'', piData = []\<rparr>,
      m_tokenParser =
        Some (TokenParser_ProcessingInstruction ProcessingInstructionParser_new)\<rparr>\<close>

theorem xmlDeclaration_only_first_witness:
  \<open>\<exists>r1. parse specCollaborators (written ''<?xml version='1.0'?>'')
           = Some (ParsingResult_XmlDeclaration, r1) \<and>
        m_documentState r1 = DocumentState_PrologWaitForDocumentType \<and>
        (\<exists>r2. parse specCollaborators lateDeclarationReader = Some (ParsingResult_Error, r2)) \<and>
        (\<exists>r3. run specCollaborators [Call_parse] lateDeclarationReader
                = Some ([ParsingResult_Error], r3))\<close>
proof -
  let ?C = specCollaborators
  from parse_declaration obtain r1 where
    p: \<open>parse ?C (written ''<?xml version='1.0'?>'') = Some (ParsingResult_XmlDeclaration, r1)\<close>
    by simp
  note t = xmlDeclaration_only_first
  from t[of ?C \<open>written ''<?xml version='1.0'?>''\<close> r1] p
  have 1: "m_documentState r1 = DocumentState_PrologWaitForDocumentType" by simp
  have h: \<open>m_parsingState lateDeclarationReader = ParsingState_ReadingProcessingInstruction \<and>
    m_tokenParser lateDeclarationReader =
      Some (TokenParser_ProcessingInstruction ProcessingInstructionParser_new) \<and>
    tokenParser_parse ?C (TokenParser_ProcessingInstruction ProcessingInstructionParser_new)
      (m_parsingBuffer lateDeclarationReader) =
      (Result_Success, TokenParser_ProcessingInstruction declarationParser, []) \<and>
    tokenFound ?C (TokenParser_ProcessingInstruction declarationParser)
      = TokenType_XmlDeclaration \<and>
    m_documentState lateDeclarationReader \<noteq> DocumentState_PrologWaitForXmlDeclaration\<close>
    by (simp add: lateDeclarationReader_def processingInstruction_declaration)
       (simp add: declarationParser_def)
  from t[of ?C lateDeclarationReader] h
  obtain r2 where 2: "parse ?C lateDeclarationReader = Some (ParsingResult_Error, r2)" by blast
  from parse_error_latched_aux[OF 2, of "[]"]
  have 3: "run ?C [Call_parse] lateDeclarationReader = Some ([ParsingResult_Error], r2)"
    using 2 by simp
  have 4: "m_parsingState lateDeclarationReader \<noteq> ParsingState_Idle \<and>
    m_documentState lateDeclarationReader \<noteq> DocumentState_PrologWaitForXmlDeclaration \<and>
    run ?C [Call_parse] lateDeclarationReader = Some ([ParsingResult_Error], r2)"
    using 3 by (simp add: lateDeclarationReader_def)
  from t[of ?C lateDeclarationReader _ _ _ _ "[Call_parse]" "[ParsingResult_Error]" r2] 4
  have "ParsingResult_XmlDeclaration \<notin> set [ParsingResult_Error]" by blast
  with p 1 2 3 show ?thesis by blast
qed

text \<open>
  A reader that has started a document with the bytes \<open>d\<close> and is about to read the type of
  its first token: \<open>parse\<close> enters this state from \<open>Idle\<close> (lemma \<open>parse_written\<close>), and
  stays in it while it needs more data.
\<close>

definition awaiting :: "string \<Rightarrow> (TokenParser, ParsingBuffer) XmlReader" where
  "awaiting d =
     (written d)\<lparr>m_tokenParser := Some (TokenParser_TokenType (TokenTypeParser_new Option_None)),
        m_parsingState := ParsingState_ReadingTokenType\<rparr>"

lemma awaiting_simps [simp]:
  "m_documentState (awaiting d) = DocumentState_PrologWaitForXmlDeclaration"
  "m_parsingState (awaiting d) = ParsingState_ReadingTokenType"
  "m_parsingBuffer (awaiting d) = d"
  "m_tokenParser (awaiting d) = Some (TokenParser_TokenType (TokenTypeParser_new Option_None))"
  "m_xmlDeclaration (awaiting d) = XmlDeclaration_clear"
  "m_processingInstruction (awaiting d) = ProcessingInstruction_clear"
  by (simp_all add: awaiting_def written_eq)

lemma parse_written_awaiting: "parse specCollaborators (written d) = parse specCollaborators (awaiting d)"
  by (simp add: parse_written awaiting_def)

lemma tokenType_whitespace:
  \<open>drive TokenTypeParser_step (TokenTypeParser_new Option_None) (CHR '' '' # d) =
     (Result_Success,
      \<lparr>tt_option = Option_None, tt_state = TokenTypeState_Finished,
       tt_tokenFound = TokenType_Whitespace\<rparr>, d)\<close>
  by (simp add: tt_eval)

lemma tokenType_instruction:
  \<open>drive TokenTypeParser_step
      \<lparr>tt_option = Option_IgnoreLeadingWhitespace,
       tt_state = TokenTypeState_WaitingForStartOfToken, tt_tokenFound = TokenType_None\<rparr>
      '' <?pi?>'' =
     (Result_Success,
      \<lparr>tt_option = Option_IgnoreLeadingWhitespace, tt_state = TokenTypeState_Finished,
       tt_tokenFound = TokenType_ProcessingInstruction\<rparr>, ''pi?>'')\<close>
  by (simp add: tt_eval)

definition instructionParser :: ProcessingInstructionParser where
  \<open>instructionParser =
     \<lparr>pi_state = ProcessingInstructionState_Finished, pi_target = ''pi'', pi_data = [],
      pi_tokenFound = TokenType_ProcessingInstruction,
      pi_processingInstruction = \<lparr>piTarget = ''pi'', piData = []\<rparr>,
      pi_xmlDeclaration = XmlDeclaration_clear\<rparr>\<close>

lemma processingInstruction_instruction:
  \<open>drive ProcessingInstructionParser_step ProcessingInstructionParser_new ''pi?>'' =
     (Result_Success, instructionParser, [])\<close>
  by (simp add: pi_eval instructionParser_def XmlDeclaration_clear_def
      ProcessingInstruction_clear_def)

lemma isValid_instruction: "ProcessingInstruction_isValid \<lparr>piTarget = ''pi'', piData = []\<rparr>"
  by (simp add: ProcessingInstruction_isValid_def isName_def codePoints.simps utf8_decode_ascii
      isNameStartChar_def isNameChar_def toLower_def)

text \<open>The reader after it has read the processing instruction of \<open>  <?pi?>\<close>.\<close>

definition instructionRead :: "(TokenParser, ParsingBuffer) XmlReader" where
  \<open>instructionRead =
     \<lparr>m_documentState = DocumentState_PrologWaitForDocumentType,
      m_parsingState = ParsingState_ProcessingInstructionRead,
      m_lastParsingResult = ParsingResult_ProcessingInstruction,
      m_parsingBuffer = [],
      m_xmlDeclaration = XmlDeclaration_clear,
      m_processingInstruction = \<lparr>piTarget = ''pi'', piData = []\<rparr>,
      m_tokenParser = Some (TokenParser_ProcessingInstruction instructionParser)\<rparr>\<close>

lemma parse_awaiting_whitespace:
  \<open>parse specCollaborators (awaiting ''  <?pi?>'') =
     Some (ParsingResult_ProcessingInstruction, instructionRead)\<close>
proof -
  let ?t2 = "\<lparr>tt_option = Option_IgnoreLeadingWhitespace,
       tt_state = TokenTypeState_WaitingForStartOfToken, tt_tokenFound = TokenType_None\<rparr>"
  let ?r2 = "(awaiting ''  <?pi?>'')
     \<lparr>m_tokenParser := Some (TokenParser_TokenType ?t2),
      m_parsingBuffer := '' <?pi?>'',
      m_documentState := DocumentState_PrologWaitForDocumentType\<rparr>"
  have "parse specCollaborators (awaiting ''  <?pi?>'') = parse specCollaborators ?r2"
    by (subst parse_TokenType_Whitespace
          [where p = "TokenParser_TokenType (TokenTypeParser_new Option_None)" and
             ?p1.0 = "TokenParser_TokenType \<lparr>tt_option = Option_None,
                tt_state = TokenTypeState_Finished, tt_tokenFound = TokenType_Whitespace\<rparr>" and
             ?b1.0 = "'' <?pi?>''" and ?p2.0 = "TokenParser_TokenType ?t2"])
       (simp_all add: tokenType_whitespace)
  also have "\<dots> = Some (ParsingResult_ProcessingInstruction, instructionRead)"
    by (subst parse_spec_ProcessingInstruction
          [where t = ?t2 and ?b1.0 = "''pi?>''" and ?q1.0 = instructionParser and ?b2.0 = "[]" and
             ?t1.0 = "\<lparr>tt_option = Option_IgnoreLeadingWhitespace,
                tt_state = TokenTypeState_Finished,
                tt_tokenFound = TokenType_ProcessingInstruction\<rparr>"])
       (simp_all add: tokenType_instruction processingInstruction_instruction,
        simp_all add: instructionParser_def isValid_instruction instructionRead_def
          awaiting_def written_eq)
  finally show ?thesis .
qed

text \<open>An XML declaration that arrives after a token has been read.\<close>

lemma parse_spec_declaration_late:
  assumes "m_parsingState r = ParsingState_ProcessingInstructionRead \<or>
           m_parsingState r = ParsingState_XmlDeclarationRead"
    and "m_documentState r \<noteq> DocumentState_PrologWaitForXmlDeclaration"
    and \<open>m_parsingBuffer r = ''<?xml version='1.0'?>''\<close>
  shows "\<exists>r2. parse specCollaborators r = Some (ParsingResult_Error, r2)"
proof -
  let ?C = specCollaborators
  let ?t = "TokenTypeParser_new Option_IgnoreLeadingWhitespace"
  let ?r1 = "r\<lparr>m_tokenParser := Some (TokenParser_TokenType ?t),
                m_parsingState := ParsingState_ReadingTokenType\<rparr>"
  let ?r2 = "?r1\<lparr>m_tokenParser := Some (newProcessingInstructionParser ?C),
                m_parsingBuffer := ''xml version='1.0'?>'',
                m_parsingState := ParsingState_ReadingProcessingInstruction\<rparr>"
  have "parse ?C r = parse ?C ?r1" by (rule parse_spec_TokenRead[OF assms(1)])
  also have "\<dots> = parse ?C ?r2"
    by (rule parse_TokenType_ProcessingInstruction
          [where p = "TokenParser_TokenType ?t" and
             ?p1.0 = "TokenParser_TokenType \<lparr>tt_option = Option_IgnoreLeadingWhitespace,
                tt_state = TokenTypeState_Finished,
                tt_tokenFound = TokenType_ProcessingInstruction\<rparr>"])
       (simp_all add: assms(3) tokenType_declaration)
  also have "\<exists>r2. \<dots> = Some (ParsingResult_Error, r2)"
    by (subst parse_XmlDeclaration_late
          [where p = "TokenParser_ProcessingInstruction ProcessingInstructionParser_new" and
             ?p1.0 = "TokenParser_ProcessingInstruction declarationParser" and ?b1.0 = "[]"])
       (simp_all add: assms(2) processingInstruction_declaration, simp add: declarationParser_def)
  finally show ?thesis .
qed

text \<open>What the reader does with an end tag, and with a document type found first.\<close>

lemma parse_EndOfElement:
  assumes "m_parsingState r = ParsingState_ReadingTokenType"
    and "m_tokenParser r = Some p"
    and "tokenParser_parse C p (m_parsingBuffer r) = (Result_Success, p1, b1)"
    and "tokenFound C p1 = TokenType_EndOfElement"
  shows "parse C r = Some (ParsingResult_Error,
           r\<lparr>m_tokenParser := Some p1, m_parsingBuffer := b1,
             m_parsingState := ParsingState_Error, m_lastParsingResult := ParsingResult_Error\<rparr>)"
proof -
  have l: "readingTokenType_loop C ParsingState_Error r =
          Some (if m_documentState r = DocumentState_Element
                then ParsingState_ReadingEndOfElement else ParsingState_Error,
                r\<lparr>m_tokenParser := Some p1, m_parsingBuffer := b1\<rparr>)"
    using assms(2-4)
    by (simp add: readingTokenType_loop.simps[of C _ r] readingTokenType_cycle_def)
  show ?thesis
  proof (cases "m_documentState r = DocumentState_Element")
    case True
    let ?r1 = "r\<lparr>m_tokenParser := Some p1, m_parsingBuffer := b1,
                 m_parsingState := ParsingState_ReadingEndOfElement\<rparr>"
    have c: "parse_cycle C ParsingResult_Error r = Some (AnotherCycle ?r1)"
      using assms(1) True l
      by (simp add: parse_cycle_def executeParsingStateReadingTokenType_def readsToken_def)
    have "parse_loop C ParsingResult_Error ?r1 =
            Some (ParsingResult_Error, ?r1\<lparr>m_parsingState := ParsingState_Error\<rparr>)"
      by (simp add: parse_loop.simps[of C _ ?r1] parse_cycle_def)
    with c show ?thesis
      by (simp add: parse_def parse_loop.simps[of C _ r])
  next
    case False
    with assms(1) l show ?thesis
      by (simp add: parse_def parse_loop.simps[of C _ r] parse_cycle_def
          executeParsingStateReadingTokenType_def readsToken_def)
  qed
qed

lemma parse_DocumentType_first:
  assumes "m_parsingState r = ParsingState_ReadingTokenType"
    and "m_tokenParser r = Some p"
    and "tokenParser_parse C p (m_parsingBuffer r) = (Result_Success, p1, b1)"
    and "tokenFound C p1 = TokenType_DocumentType"
    and "m_documentState r = DocumentState_PrologWaitForXmlDeclaration"
  shows "parse C r = Some (ParsingResult_Error,
           r\<lparr>m_tokenParser := Some p1, m_parsingBuffer := b1,
             m_documentState := DocumentState_PrologWaitForDocumentType,
             m_parsingState := ParsingState_Error, m_lastParsingResult := ParsingResult_Error\<rparr>)"
proof -
  have "readingTokenType_loop C ParsingState_Error r =
          Some (ParsingState_Error,
                r\<lparr>m_tokenParser := Some p1, m_parsingBuffer := b1,
                  m_documentState := DocumentState_PrologWaitForDocumentType\<rparr>)"
    using assms(2-5)
    by (simp add: readingTokenType_loop.simps[of C _ r] readingTokenType_cycle_def)
  with assms(1) show ?thesis
    by (simp add: parse_def parse_loop.simps[of C _ r] parse_cycle_def
        executeParsingStateReadingTokenType_def readsToken_def)
qed

theorem downgrade_start_tag_counterexample:
  \<open>map_option (\<lambda>y. (fst y, m_documentState (snd y), m_parsingState (snd y)))
     (parse specCollaborators (written ''<a/>'')) =
   Some (ParsingResult_Error, DocumentState_PrologWaitForXmlDeclaration, ParsingState_Error)\<close>
  using parse_written_StartOfElement[OF tokenType_StartOfElement_example]
  by (simp add: written_eq)

text \<open>
  C4. When the document state is \<open>PrologWaitForXmlDeclaration\<close> and the token type parser
  finds whitespace first, or a comment or a document type, or \<open>parse\<close> returns a token
  other than an XML declaration, the document state after the call is
  \<open>PrologWaitForDocumentType\<close>. When it finds a start tag, a CDATA section or an end tag,
  \<open>parse\<close> returns \<open>Error\<close> and leaves the document state as it is. Either way, after a
  call of \<open>parse\<close> that has left \<open>PrologWaitForXmlDeclaration\<close>, or has returned anything
  but \<open>NeedMoreData\<close>, no later call returns \<open>XmlDeclaration\<close>.
\<close>

theorem downgrade_rule:
  \<open>(m_parsingState r = ParsingState_ReadingTokenType \<and> m_tokenParser r = Some p \<and>
    tokenParser_parse C p (m_parsingBuffer r) = (Result_Success, p1, b1) \<and>
    tokenFound C p1 = TokenType_Whitespace \<and>
    m_documentState r = DocumentState_PrologWaitForXmlDeclaration \<and>
    parse C r = Some (res, r1) \<longrightarrow>
      m_documentState r1 = DocumentState_PrologWaitForDocumentType) \<and>
   (m_parsingState r = ParsingState_Idle \<and> isValid C (newTokenTypeParser C Option_None) \<and>
    tokenParser_parse C (newTokenTypeParser C Option_None) (m_parsingBuffer r)
      = (Result_Success, p1, b1) \<and>
    tokenFound C p1 = TokenType_Whitespace \<and> parse C r = Some (res, r1) \<longrightarrow>
      m_documentState r1 = DocumentState_PrologWaitForDocumentType) \<and>
   (m_parsingState r = ParsingState_ReadingTokenType \<and> m_tokenParser r = Some p \<and>
    tokenParser_parse C p (m_parsingBuffer r) = (Result_Success, p1, b1) \<and>
    (tokenFound C p1 = TokenType_Comment \<or> tokenFound C p1 = TokenType_DocumentType) \<and>
    m_documentState r = DocumentState_PrologWaitForXmlDeclaration \<longrightarrow>
      (\<exists>r'. parse C r = Some (ParsingResult_Error, r') \<and>
            m_documentState r' = DocumentState_PrologWaitForDocumentType)) \<and>
   (m_parsingState r = ParsingState_ReadingTokenType \<and> m_tokenParser r = Some p \<and>
    tokenParser_parse C p (m_parsingBuffer r) = (Result_Success, p1, b1) \<and>
    (tokenFound C p1 = TokenType_StartOfElement \<or> tokenFound C p1 = TokenType_CData \<or>
     tokenFound C p1 = TokenType_EndOfElement) \<longrightarrow>
      (\<exists>r'. parse C r = Some (ParsingResult_Error, r') \<and>
            m_documentState r' = m_documentState r)) \<and>
   (startPhase r = DocumentState_PrologWaitForXmlDeclaration \<and> parse C r = Some (res, r1) \<and>
    res \<noteq> ParsingResult_Error \<and> res \<noteq> ParsingResult_NeedMoreData \<longrightarrow>
      m_documentState r1 = DocumentState_PrologWaitForDocumentType) \<and>
   (parse C r = Some (res, r1) \<and>
    (res \<noteq> ParsingResult_NeedMoreData \<or>
     m_documentState r1 \<noteq> DocumentState_PrologWaitForXmlDeclaration) \<and>
    run C cs r1 = Some (ress, r2) \<longrightarrow> ParsingResult_XmlDeclaration \<notin> set ress)\<close>
proof (intro conjI impI)
  assume "m_parsingState r = ParsingState_ReadingTokenType \<and> m_tokenParser r = Some p \<and>
    tokenParser_parse C p (m_parsingBuffer r) = (Result_Success, p1, b1) \<and>
    tokenFound C p1 = TokenType_Whitespace \<and>
    m_documentState r = DocumentState_PrologWaitForXmlDeclaration \<and>
    parse C r = Some (res, r1)"
  then show "m_documentState r1 = DocumentState_PrologWaitForDocumentType"
    using parse_Whitespace[of r p C p1 b1 res r1] by simp
next
  assume "m_parsingState r = ParsingState_Idle \<and> isValid C (newTokenTypeParser C Option_None) \<and>
    tokenParser_parse C (newTokenTypeParser C Option_None) (m_parsingBuffer r)
      = (Result_Success, p1, b1) \<and>
    tokenFound C p1 = TokenType_Whitespace \<and> parse C r = Some (res, r1)"
  then show "m_documentState r1 = DocumentState_PrologWaitForDocumentType"
    using parse_Whitespace_Idle[of r C p1 b1 res r1] by simp
next
  assume "m_parsingState r = ParsingState_ReadingTokenType \<and> m_tokenParser r = Some p \<and>
    tokenParser_parse C p (m_parsingBuffer r) = (Result_Success, p1, b1) \<and>
    (tokenFound C p1 = TokenType_Comment \<or> tokenFound C p1 = TokenType_DocumentType) \<and>
    m_documentState r = DocumentState_PrologWaitForXmlDeclaration"
  then show "\<exists>r'. parse C r = Some (ParsingResult_Error, r') \<and>
            m_documentState r' = DocumentState_PrologWaitForDocumentType"
    using parse_Comment[of r p C p1 b1] parse_DocumentType_first[of r p C p1 b1] by auto
next
  assume "m_parsingState r = ParsingState_ReadingTokenType \<and> m_tokenParser r = Some p \<and>
    tokenParser_parse C p (m_parsingBuffer r) = (Result_Success, p1, b1) \<and>
    (tokenFound C p1 = TokenType_StartOfElement \<or> tokenFound C p1 = TokenType_CData \<or>
     tokenFound C p1 = TokenType_EndOfElement)"
  then show "\<exists>r'. parse C r = Some (ParsingResult_Error, r') \<and>
            m_documentState r' = m_documentState r"
    using parse_StartOfElement[of r p C p1 b1] parse_CData[of r p C p1 b1]
      parse_EndOfElement[of r p C p1 b1] by auto
next
  assume a: "startPhase r = DocumentState_PrologWaitForXmlDeclaration \<and>
    parse C r = Some (res, r1) \<and>
    res \<noteq> ParsingResult_Error \<and> res \<noteq> ParsingResult_NeedMoreData"
  then have p: "parse C r = Some (res, r1)" by simp
  from parse_phase(3,4)[OF p] a
  show "m_documentState r1 = DocumentState_PrologWaitForDocumentType"
    by (auto simp: phaseStep_def)
next
  assume a: "parse C r = Some (res, r1) \<and>
    (res \<noteq> ParsingResult_NeedMoreData \<or>
     m_documentState r1 \<noteq> DocumentState_PrologWaitForXmlDeclaration) \<and>
    run C cs r1 = Some (ress, r2)"
  then have p: "parse C r = Some (res, r1)" and t: "run C cs r1 = Some (ress, r2)"
    by simp_all
  show "ParsingResult_XmlDeclaration \<notin> set ress"
  proof (cases "res = ParsingResult_Error")
    case True
    with p parse_error_latched_aux[of C r r1 cs] t show ?thesis by auto
  next
    case False
    with a parse_phase(3)[OF p]
    have "m_documentState r1 \<noteq> DocumentState_PrologWaitForXmlDeclaration" by blast
    from run_after_prolog[OF parse_result(3)[OF p] this t] show ?thesis by simp
  qed
qed

lemma tokenType_comment:
  \<open>drive TokenTypeParser_step (TokenTypeParser_new Option_None) ''<!-- c -->'' =
     (Result_Success,
      \<lparr>tt_option = Option_None, tt_state = TokenTypeState_Finished,
       tt_tokenFound = TokenType_Comment\<rparr>, ''-- c -->'')\<close>
  by (simp add: tt_eval)

theorem downgrade_rule_witness:
  \<open>parse specCollaborators (awaiting ''  <?pi?>'')
     = Some (ParsingResult_ProcessingInstruction, instructionRead) \<and>
   parse specCollaborators (written ''  <?pi?>'')
     = Some (ParsingResult_ProcessingInstruction, instructionRead) \<and>
   m_documentState instructionRead = DocumentState_PrologWaitForDocumentType \<and>
   (\<exists>r2. run specCollaborators [Call_writeData ''<?xml version='1.0'?>'', Call_parse]
           instructionRead = Some ([ParsingResult_Error], r2)) \<and>
   (\<exists>r1. parse specCollaborators (awaiting ''<!-- c -->'') = Some (ParsingResult_Error, r1) \<and>
         m_documentState r1 = DocumentState_PrologWaitForDocumentType) \<and>
   (\<exists>r1. parse specCollaborators (awaiting ''<a/>'') = Some (ParsingResult_Error, r1) \<and>
         m_documentState r1 = DocumentState_PrologWaitForXmlDeclaration)\<close>
proof -
  let ?C = specCollaborators
  let ?w = \<open>TokenParser_TokenType \<lparr>tt_option = Option_None,
     tt_state = TokenTypeState_Finished, tt_tokenFound = TokenType_Whitespace\<rparr>\<close>
  let ?d = \<open>''<?xml version='1.0'?>''\<close>
  note t = downgrade_rule
  note p = parse_awaiting_whitespace
  then have q: \<open>parse ?C (written ''  <?pi?>'')
      = Some (ParsingResult_ProcessingInstruction, instructionRead)\<close>
    by (simp add: parse_written_awaiting)
  have 1: "m_documentState instructionRead = DocumentState_PrologWaitForDocumentType"
    using t[of \<open>awaiting ''  <?pi?>''\<close>
        "TokenParser_TokenType (TokenTypeParser_new Option_None)" ?C ?w \<open>'' <?pi?>''\<close>
        ParsingResult_ProcessingInstruction instructionRead] p
    by (simp add: tokenType_whitespace)
  have 2: "m_documentState instructionRead = DocumentState_PrologWaitForDocumentType"
    using t[of \<open>written ''  <?pi?>''\<close> _ ?C ?w \<open>'' <?pi?>''\<close>
        ParsingResult_ProcessingInstruction instructionRead] q
    by (simp add: tokenType_whitespace written_eq)
  have 3: "m_documentState instructionRead = DocumentState_PrologWaitForDocumentType"
    using t[of \<open>awaiting ''  <?pi?>''\<close> _ ?C _ _ ParsingResult_ProcessingInstruction
        instructionRead] p
    by (simp add: startPhase_def)
  have 4: \<open>\<exists>r'. parse ?C (awaiting ''<!-- c -->'') = Some (ParsingResult_Error, r') \<and>
            m_documentState r' = DocumentState_PrologWaitForDocumentType\<close>
    using t[of \<open>awaiting ''<!-- c -->''\<close>
        "TokenParser_TokenType (TokenTypeParser_new Option_None)" ?C
        \<open>TokenParser_TokenType \<lparr>tt_option = Option_None,
           tt_state = TokenTypeState_Finished, tt_tokenFound = TokenType_Comment\<rparr>\<close>
        \<open>''-- c -->''\<close>]
    by (simp add: tokenType_comment)
  have 5: \<open>\<exists>r'. parse ?C (awaiting ''<a/>'') = Some (ParsingResult_Error, r') \<and>
            m_documentState r' = DocumentState_PrologWaitForXmlDeclaration\<close>
    using t[of \<open>awaiting ''<a/>''\<close>
        "TokenParser_TokenType (TokenTypeParser_new Option_None)" ?C
        \<open>TokenParser_TokenType \<lparr>tt_option = Option_None,
           tt_state = TokenTypeState_Finished, tt_tokenFound = TokenType_StartOfElement\<rparr>\<close>
        \<open>''a/>''\<close>]
    by (simp add: tokenType_StartOfElement_example)
  have \<open>\<exists>r2. parse ?C (snd (writeData ?C ?d instructionRead)) = Some (ParsingResult_Error, r2)\<close>
    by (rule parse_spec_declaration_late)
       (simp_all add: writeData_frame writeData_def instructionRead_def
          ParsingBuffer_writeData_def)
  then obtain r2 where
    r: "run ?C [Call_writeData ?d, Call_parse] instructionRead = Some ([ParsingResult_Error], r2)"
    by auto
  from t[of \<open>awaiting ''  <?pi?>''\<close> _ ?C _ _ ParsingResult_ProcessingInstruction
      instructionRead "[Call_writeData ?d, Call_parse]" "[ParsingResult_Error]" r2] p r
  have "ParsingResult_XmlDeclaration \<notin> set [ParsingResult_Error]" by simp
  with p q 1 4 5 r show ?thesis by blast
qed

text \<open>
  A reader in the document state \<open>d\<close> that is about to read the type of the next token,
  with a CDATA section in its buffer.
\<close>

definition cdataReader :: "DocumentState \<Rightarrow> (TokenParser, ParsingBuffer) XmlReader" where
  \<open>cdataReader d =
     \<lparr>m_documentState = d,
      m_parsingState = ParsingState_ReadingTokenType,
      m_lastParsingResult = ParsingResult_NeedMoreData,
      m_parsingBuffer = ''<![CDATA[x]]>'',
      m_xmlDeclaration = XmlDeclaration_clear,
      m_processingInstruction = ProcessingInstruction_clear,
      m_tokenParser =
        Some (TokenParser_TokenType (TokenTypeParser_new Option_IgnoreLeadingWhitespace))\<rparr>\<close>

definition cdataFound :: TokenTypeParser where
  "cdataFound =
     \<lparr>tt_option = Option_IgnoreLeadingWhitespace, tt_state = TokenTypeState_Finished,
      tt_tokenFound = TokenType_CData\<rparr>"

lemma tokenType_cdata:
  \<open>drive TokenTypeParser_step (TokenTypeParser_new Option_IgnoreLeadingWhitespace)
     ''<![CDATA[x]]>'' = (Result_Success, cdataFound, ''[CDATA[x]]>'')\<close>
  by (simp add: tt_eval cdataFound_def)

lemma cdataReader_found:
  \<open>m_parsingState (cdataReader d) = ParsingState_ReadingTokenType\<close>
  \<open>m_tokenParser (cdataReader d) =
     Some (TokenParser_TokenType (TokenTypeParser_new Option_IgnoreLeadingWhitespace))\<close>
  \<open>tokenParser_parse specCollaborators
     (TokenParser_TokenType (TokenTypeParser_new Option_IgnoreLeadingWhitespace))
     (m_parsingBuffer (cdataReader d)) =
     (Result_Success, TokenParser_TokenType cdataFound, ''[CDATA[x]]>'')\<close>
  \<open>tokenFound specCollaborators (TokenParser_TokenType cdataFound) = TokenType_CData\<close>
  \<open>m_documentState (cdataReader d) = d\<close>
  by (simp_all add: cdataReader_def tokenType_cdata) (simp add: cdataFound_def)

subsection \<open>The getters\<close>

text \<open>
  The typed getters as the specification words them, to compare the getters of the source
  with: a getter called when the last result is not of its kind reports a
  \<open>ContractError\<close>.
\<close>

datatype ContractError = ContractError

definition xmlDeclaration_spec :: "('p, 'b) XmlReader \<Rightarrow> ContractError + XmlDeclaration" where
  "xmlDeclaration_spec r =
     (if lastParsingResult r = ParsingResult_XmlDeclaration then Inr (m_xmlDeclaration r)
      else Inl ContractError)"

definition processingInstruction_spec ::
  "('p, 'b) XmlReader \<Rightarrow> ContractError + ProcessingInstruction" where
  "processingInstruction_spec r =
     (if lastParsingResult r = ParsingResult_ProcessingInstruction
      then Inr (m_processingInstruction r) else Inl ContractError)"

theorem getters_unchecked_counterexample:
  \<open>lastParsingResult XmlReader_new = ParsingResult_None \<and>
   xmlDeclaration XmlReader_new = XmlDeclaration_clear \<and>
   xmlDeclaration_spec XmlReader_new = Inl ContractError \<and>
   xmlDeclaration_spec XmlReader_new \<noteq> Inr (xmlDeclaration XmlReader_new) \<and>
   processingInstruction XmlReader_new = ProcessingInstruction_clear \<and>
   processingInstruction_spec XmlReader_new = Inl ContractError \<and>
   processingInstruction_spec XmlReader_new \<noteq> Inr (processingInstruction XmlReader_new)\<close>
  by (simp add: XmlReader_new_def clear_def startNewDocument_def lastParsingResult_def
      xmlDeclaration_def processingInstruction_def xmlDeclaration_spec_def
      processingInstruction_spec_def)

text \<open>A call of \<open>parse\<close> after a token, with nothing left in the buffer.\<close>

lemma parse_spec_empty:
  assumes "m_parsingState r = ParsingState_ProcessingInstructionRead \<or>
           m_parsingState r = ParsingState_XmlDeclarationRead"
    and "m_parsingBuffer r = []"
  shows "parse specCollaborators r =
           Some (ParsingResult_NeedMoreData,
                 r\<lparr>m_tokenParser :=
                       Some (TokenParser_TokenType
                               (TokenTypeParser_new Option_IgnoreLeadingWhitespace)),
                    m_parsingState := ParsingState_ReadingTokenType,
                    m_lastParsingResult := ParsingResult_NeedMoreData\<rparr>)"
proof -
  let ?t = "TokenTypeParser_new Option_IgnoreLeadingWhitespace"
  let ?r1 = "r\<lparr>m_tokenParser := Some (TokenParser_TokenType ?t),
                m_parsingState := ParsingState_ReadingTokenType\<rparr>"
  have "parse specCollaborators r = parse specCollaborators ?r1"
    by (rule parse_spec_TokenRead[OF assms(1)])
  also have "\<dots> = Some (ParsingResult_NeedMoreData,
                 ?r1\<lparr>m_tokenParser := Some (TokenParser_TokenType ?t), m_parsingBuffer := [],
                   m_parsingState := ParsingState_ReadingTokenType,
                   m_lastParsingResult := ParsingResult_NeedMoreData\<rparr>)"
    by (rule parse_TokenType_NeedMoreData[where p = "TokenParser_TokenType ?t"])
       (simp_all add: assms(2) drive_Nil)
  finally show ?thesis using assms(2) by simp
qed

text \<open>
  C8. The getters make no check and report no error: \<open>xmlDeclaration\<close> and
  \<open>processingInstruction\<close> return the stored tokens whatever the last result is. After
  \<open>clear\<close> they return the cleared tokens, and after a call of \<open>parse\<close> that returns
  another result than \<open>Error\<close> and than the getter's own kind they return what they
  returned before the call.
\<close>

theorem getters_unchecked:
  \<open>xmlDeclaration r = m_xmlDeclaration r \<and>
   processingInstruction r = m_processingInstruction r \<and>
   lastParsingResult (clear C r) = ParsingResult_None \<and>
   xmlDeclaration (clear C r) = XmlDeclaration_clear \<and>
   processingInstruction (clear C r) = ProcessingInstruction_clear \<and>
   (parse C r = Some (res, r1) \<and> res \<noteq> ParsingResult_Error \<and>
    res \<noteq> ParsingResult_XmlDeclaration \<longrightarrow>
      lastParsingResult r1 = res \<and> xmlDeclaration r1 = xmlDeclaration r) \<and>
   (parse C r = Some (res, r1) \<and> res \<noteq> ParsingResult_Error \<and>
    res \<noteq> ParsingResult_ProcessingInstruction \<longrightarrow>
      lastParsingResult r1 = res \<and> processingInstruction r1 = processingInstruction r)\<close>
proof (intro conjI impI)
  assume "parse C r = Some (res, r1) \<and> res \<noteq> ParsingResult_Error \<and>
    res \<noteq> ParsingResult_XmlDeclaration"
  then have p: "parse C r = Some (res, r1)" and e: "res \<noteq> ParsingResult_Error"
    and x: "res \<noteq> ParsingResult_XmlDeclaration" by simp_all
  from parse_result(2)[OF p] show "lastParsingResult r1 = res"
    by (simp add: lastParsingResult_def)
  from parse_tokens(1)[OF p e x] show "xmlDeclaration r1 = xmlDeclaration r"
    by (simp add: xmlDeclaration_def)
next
  assume "parse C r = Some (res, r1) \<and> res \<noteq> ParsingResult_Error \<and>
    res \<noteq> ParsingResult_ProcessingInstruction"
  then have p: "parse C r = Some (res, r1)" and e: "res \<noteq> ParsingResult_Error"
    and x: "res \<noteq> ParsingResult_ProcessingInstruction" by simp_all
  from parse_result(2)[OF p] show "lastParsingResult r1 = res"
    by (simp add: lastParsingResult_def)
  from parse_tokens(2)[OF p e x] show "processingInstruction r1 = processingInstruction r"
    by (simp add: processingInstruction_def)
qed (simp_all add: clear_def startNewDocument_def lastParsingResult_def xmlDeclaration_def
      processingInstruction_def)

text \<open>The reader after it has read the XML declaration \<open><?xml version='1.0'?>\<close>.\<close>

definition declarationRead :: "(TokenParser, ParsingBuffer) XmlReader" where
  \<open>declarationRead =
     \<lparr>m_documentState = DocumentState_PrologWaitForDocumentType,
      m_parsingState = ParsingState_XmlDeclarationRead,
      m_lastParsingResult = ParsingResult_XmlDeclaration,
      m_parsingBuffer = [],
      m_xmlDeclaration = \<lparr>version = ''1.0'', encoding = None, standalone = None\<rparr>,
      m_processingInstruction = ProcessingInstruction_clear,
      m_tokenParser = Some (TokenParser_ProcessingInstruction declarationParser)\<rparr>\<close>

theorem getters_unchecked_witness:
  \<open>parse specCollaborators (written ''<?xml version='1.0'?>'')
     = Some (ParsingResult_XmlDeclaration, declarationRead) \<and>
   (\<exists>r2. parse specCollaborators declarationRead = Some (ParsingResult_NeedMoreData, r2) \<and>
      lastParsingResult r2 = ParsingResult_NeedMoreData \<and>
      xmlDeclaration r2 = \<lparr>version = ''1.0'', encoding = None, standalone = None\<rparr>) \<and>
   (\<exists>r2. parse specCollaborators instructionRead = Some (ParsingResult_NeedMoreData, r2) \<and>
      lastParsingResult r2 = ParsingResult_NeedMoreData \<and>
      processingInstruction r2 = \<lparr>piTarget = ''pi'', piData = []\<rparr>)\<close>
proof -
  let ?C = specCollaborators
  have d: \<open>parse ?C (written ''<?xml version='1.0'?>'')
     = Some (ParsingResult_XmlDeclaration, declarationRead)\<close>
    by (simp add: parse_declaration declarationRead_def)
  obtain r2 where 1: "parse ?C declarationRead = Some (ParsingResult_NeedMoreData, r2)"
    using parse_spec_empty[of declarationRead] by (simp add: declarationRead_def)
  obtain r3 where 2: "parse ?C instructionRead = Some (ParsingResult_NeedMoreData, r3)"
    using parse_spec_empty[of instructionRead] by (simp add: instructionRead_def)
  from getters_unchecked[of declarationRead ?C ParsingResult_NeedMoreData r2] 1
  have 3: "lastParsingResult r2 = ParsingResult_NeedMoreData \<and>
      xmlDeclaration r2 = \<lparr>version = ''1.0'', encoding = None, standalone = None\<rparr>"
    by (simp add: declarationRead_def)
  from getters_unchecked[of instructionRead ?C ParsingResult_NeedMoreData r3] 2
  have 4: "lastParsingResult r3 = ParsingResult_NeedMoreData \<and>
      processingInstruction r3 = \<lparr>piTarget = ''pi'', piData = []\<rparr>"
    by (simp add: instructionRead_def)
  from d 1 2 3 4 show ?thesis by blast
qed

subsection \<open>CDATA sections\<close>









subsection \<open>An XML declaration and a processing instruction\<close>

definition exampleDocument :: string where
  \<open>exampleDocument =
     ''<?xml version='1.0' encoding='UTF-8' standalone='yes' ?><?pitarget   pidata   ?>''\<close>

text \<open>The processing instruction parser after the declaration, and after the instruction.\<close>

definition exampleDeclarationParser :: ProcessingInstructionParser where
  \<open>exampleDeclarationParser =
     \<lparr>pi_state = ProcessingInstructionState_Finished, pi_target = ''xml'',
      pi_data = ''version='1.0' encoding='UTF-8' standalone='yes' '',
      pi_tokenFound = TokenType_XmlDeclaration,
      pi_processingInstruction = ProcessingInstruction_clear,
      pi_xmlDeclaration =
        \<lparr>version = ''1.0'', encoding = Some ''UTF-8'', standalone = Some Tri_Yes\<rparr>\<rparr>\<close>

definition exampleInstructionParser :: ProcessingInstructionParser where
  \<open>exampleInstructionParser =
     \<lparr>pi_state = ProcessingInstructionState_Finished, pi_target = ''pitarget'',
      pi_data = ''pidata   '',
      pi_tokenFound = TokenType_ProcessingInstruction,
      pi_processingInstruction = \<lparr>piTarget = ''pitarget'', piData = ''pidata''\<rparr>,
      pi_xmlDeclaration = XmlDeclaration_clear\<rparr>\<close>

text \<open>The reader after each of the three calls of \<open>parse\<close>.\<close>

definition exampleDeclarationRead :: "(TokenParser, ParsingBuffer) XmlReader" where
  \<open>exampleDeclarationRead =
     \<lparr>m_documentState = DocumentState_PrologWaitForDocumentType,
      m_parsingState = ParsingState_XmlDeclarationRead,
      m_lastParsingResult = ParsingResult_XmlDeclaration,
      m_parsingBuffer = ''<?pitarget   pidata   ?>'',
      m_xmlDeclaration =
        \<lparr>version = ''1.0'', encoding = Some ''UTF-8'', standalone = Some Tri_Yes\<rparr>,
      m_processingInstruction = ProcessingInstruction_clear,
      m_tokenParser = Some (TokenParser_ProcessingInstruction exampleDeclarationParser)\<rparr>\<close>

definition exampleInstructionRead :: "(TokenParser, ParsingBuffer) XmlReader" where
  \<open>exampleInstructionRead =
     \<lparr>m_documentState = DocumentState_PrologWaitForDocumentType,
      m_parsingState = ParsingState_ProcessingInstructionRead,
      m_lastParsingResult = ParsingResult_ProcessingInstruction,
      m_parsingBuffer = [],
      m_xmlDeclaration =
        \<lparr>version = ''1.0'', encoding = Some ''UTF-8'', standalone = Some Tri_Yes\<rparr>,
      m_processingInstruction = \<lparr>piTarget = ''pitarget'', piData = ''pidata''\<rparr>,
      m_tokenParser = Some (TokenParser_ProcessingInstruction exampleInstructionParser)\<rparr>\<close>

definition exampleEnd :: "(TokenParser, ParsingBuffer) XmlReader" where
  \<open>exampleEnd =
     exampleInstructionRead
       \<lparr>m_tokenParser :=
          Some (TokenParser_TokenType (TokenTypeParser_new Option_IgnoreLeadingWhitespace)),
        m_parsingState := ParsingState_ReadingTokenType,
        m_lastParsingResult := ParsingResult_NeedMoreData\<rparr>\<close>

lemma parse_example_declaration:
  \<open>parse specCollaborators (written exampleDocument) =
     Some (ParsingResult_XmlDeclaration, exampleDeclarationRead)\<close>
  unfolding parse_written
  by (subst parse_spec_XmlDeclaration
        [where t = "TokenTypeParser_new Option_None" and
           ?t1.0 = "\<lparr>tt_option = Option_None, tt_state = TokenTypeState_Finished,
                      tt_tokenFound = TokenType_ProcessingInstruction\<rparr>" and
           ?b1.0 = "''xml version='1.0' encoding='UTF-8' standalone='yes' ?><?pitarget   pidata   ?>''"
           and ?q1.0 = exampleDeclarationParser and ?b2.0 = "''<?pitarget   pidata   ?>''"])
     (simp_all add: written_eq exampleDocument_def tokenType_example_declaration
        processingInstruction_example_declaration exampleDeclarationParser_def,
      simp_all add: isValid_example exampleDeclarationRead_def exampleDeclarationParser_def)

lemma parse_example_instruction:
  \<open>parse specCollaborators exampleDeclarationRead =
     Some (ParsingResult_ProcessingInstruction, exampleInstructionRead)\<close>
proof -
  let ?t = "TokenTypeParser_new Option_IgnoreLeadingWhitespace"
  let ?r1 = "exampleDeclarationRead\<lparr>m_tokenParser := Some (TokenParser_TokenType ?t),
                m_parsingState := ParsingState_ReadingTokenType\<rparr>"
  have "parse specCollaborators exampleDeclarationRead = parse specCollaborators ?r1"
    by (rule parse_spec_TokenRead) (simp add: exampleDeclarationRead_def)
  also have "\<dots> = Some (ParsingResult_ProcessingInstruction, exampleInstructionRead)"
    by (subst parse_spec_ProcessingInstruction
          [where t = ?t and
             ?t1.0 = "\<lparr>tt_option = Option_IgnoreLeadingWhitespace,
                tt_state = TokenTypeState_Finished,
                tt_tokenFound = TokenType_ProcessingInstruction\<rparr>" and
             ?b1.0 = "''pitarget   pidata   ?>''" and ?q1.0 = exampleInstructionParser and
             ?b2.0 = "[]"])
       (simp_all add: exampleDeclarationRead_def tokenType_example_instruction
          processingInstruction_example_instruction exampleInstructionParser_def,
        simp_all add: isName_example exampleInstructionRead_def exampleInstructionParser_def)
  finally show ?thesis .
qed

lemma parse_example_end:
  \<open>parse specCollaborators exampleInstructionRead = Some (ParsingResult_NeedMoreData, exampleEnd)\<close>
  unfolding exampleEnd_def
  by (rule parse_spec_empty) (simp_all add: exampleInstructionRead_def)

lemma run_example:
  \<open>run specCollaborators [Call_writeData exampleDocument, Call_parse, Call_parse, Call_parse]
     XmlReader_new =
   Some ([ParsingResult_XmlDeclaration, ParsingResult_ProcessingInstruction,
          ParsingResult_NeedMoreData], exampleEnd)\<close>
  using parse_example_declaration parse_example_instruction parse_example_end
  by (simp add: written_def)

text \<open>
  C5. After the bytes
  \<open><?xml version='1.0' encoding='UTF-8' standalone='yes' ?><?pitarget   pidata   ?>\<close> have
  been written to a new reader, three calls of \<open>parse\<close> return \<open>XmlDeclaration\<close>, with
  version \<open>1.0\<close>, encoding \<open>UTF-8\<close> and standalone \<open>yes\<close>; then
  \<open>ProcessingInstruction\<close>, with the target \<open>pitarget\<close> and the data \<open>pidata\<close>; then
  \<open>NeedMoreData\<close>.
\<close>

theorem run_declaration_instruction:
  \<open>\<exists>r1 r2 r3.
     parse specCollaborators (snd (writeData specCollaborators exampleDocument XmlReader_new))
       = Some (ParsingResult_XmlDeclaration, r1) \<and>
     xmlDeclaration r1 =
       \<lparr>version = ''1.0'', encoding = Some ''UTF-8'', standalone = Some Tri_Yes\<rparr> \<and>
     parse specCollaborators r1 = Some (ParsingResult_ProcessingInstruction, r2) \<and>
     processingInstruction r2 = \<lparr>piTarget = ''pitarget'', piData = ''pidata''\<rparr> \<and>
     parse specCollaborators r2 = Some (ParsingResult_NeedMoreData, r3) \<and>
     run specCollaborators [Call_writeData exampleDocument, Call_parse, Call_parse, Call_parse]
       XmlReader_new =
     Some ([ParsingResult_XmlDeclaration, ParsingResult_ProcessingInstruction,
            ParsingResult_NeedMoreData], r3) \<and>
     exampleDocument =
       ''<?xml version='1.0' encoding='UTF-8' standalone='yes' ?><?pitarget   pidata   ?>''\<close>
proof (intro exI conjI)
  show \<open>parse specCollaborators (snd (writeData specCollaborators exampleDocument XmlReader_new))
       = Some (ParsingResult_XmlDeclaration, exampleDeclarationRead)\<close>
    using parse_example_declaration by (simp add: written_def)
  show \<open>parse specCollaborators exampleDeclarationRead
       = Some (ParsingResult_ProcessingInstruction, exampleInstructionRead)\<close>
    by (rule parse_example_instruction)
  show \<open>parse specCollaborators exampleInstructionRead
       = Some (ParsingResult_NeedMoreData, exampleEnd)\<close>
    by (rule parse_example_end)
  show \<open>run specCollaborators [Call_writeData exampleDocument, Call_parse, Call_parse, Call_parse]
       XmlReader_new =
     Some ([ParsingResult_XmlDeclaration, ParsingResult_ProcessingInstruction,
            ParsingResult_NeedMoreData], exampleEnd)\<close>
    by (rule run_example)
qed (simp_all add: xmlDeclaration_def processingInstruction_def exampleDeclarationRead_def
      exampleInstructionRead_def exampleDocument_def)

section \<open>The item parser (XmlItemParser.h)\<close>

text \<open>
  Only the header of the item parser is among the sources. It fixes the type of what the
  parser reports: the enumeration \<open>ItemType\<close>, the member \<open>m_itemType\<close> and its getter.
\<close>

datatype ItemType =
    ItemType_None
  | ItemType_Whitespace
  | ItemType_ProcessingInstruction
  | ItemType_DocumentType
  | ItemType_Comment
  | ItemType_StartOfElement

datatype Action =
    Action_ReadItem
  | Action_ReadName
  | Action_ReadPiValue
  | Action_ReadDocumentTypeValue
  | Action_ReadCommentText
  | Action_ReadElementStartOfContent
  | Action_ReadElementEndEmpty
  | Action_ReadAttributeValue

record XmlItemParser =
  m_option :: Option
  m_terminationCharacter :: nat
  m_itemType :: ItemType
  m_value :: string

definition getItemType :: "XmlItemParser \<Rightarrow> ItemType" where
  "getItemType p = m_itemType p"

definition getTerminationCharacter :: "XmlItemParser \<Rightarrow> nat" where
  "getTerminationCharacter p = m_terminationCharacter p"

definition getValue :: "XmlItemParser \<Rightarrow> string" where
  "getValue p = m_value p"

lemma readingTokenType_loop_EndOfElement:
  assumes "m_tokenParser r = Some p"
    and "tokenParser_parse C p (m_parsingBuffer r) = (Result_Success, p1, b1)"
    and "tokenFound C p1 = TokenType_EndOfElement"
  shows "readingTokenType_loop C ns r =
           Some (if m_documentState r = DocumentState_Element
                 then ParsingState_ReadingEndOfElement else ns,
                 r\<lparr>m_tokenParser := Some p1, m_parsingBuffer := b1\<rparr>)"
  using assms
  by (simp add: readingTokenType_loop.simps[of C ns r] readingTokenType_cycle_def)

theorem itemType_counterexample:
  \<open>(UNIV :: ItemType set) =
     {ItemType_None, ItemType_Whitespace, ItemType_ProcessingInstruction,
      ItemType_DocumentType, ItemType_Comment, ItemType_StartOfElement} \<and>
   card (UNIV :: ItemType set) = 6\<close>
proof -
  have u: "(UNIV :: ItemType set) =
     {ItemType_None, ItemType_Whitespace, ItemType_ProcessingInstruction,
      ItemType_DocumentType, ItemType_Comment, ItemType_StartOfElement}"
  proof (intro set_eqI iffI)
    fix x :: ItemType
    show "x \<in> {ItemType_None, ItemType_Whitespace, ItemType_ProcessingInstruction,
      ItemType_DocumentType, ItemType_Comment, ItemType_StartOfElement}"
      by (cases x) simp_all
  qed simp
  show ?thesis by (subst (2) u, rule conjI[OF u]) simp
qed

text \<open>A reader in the document state \<open>d\<close> with an end tag in its buffer.\<close>

definition endTagReader :: "DocumentState \<Rightarrow> (TokenParser, ParsingBuffer) XmlReader" where
  \<open>endTagReader d =
     \<lparr>m_documentState = d,
      m_parsingState = ParsingState_ReadingTokenType,
      m_lastParsingResult = ParsingResult_NeedMoreData,
      m_parsingBuffer = '' </a>'',
      m_xmlDeclaration = XmlDeclaration_clear,
      m_processingInstruction = ProcessingInstruction_clear,
      m_tokenParser =
        Some (TokenParser_TokenType (TokenTypeParser_new Option_IgnoreLeadingWhitespace))\<rparr>\<close>

definition endTagFound :: TokenTypeParser where
  "endTagFound =
     \<lparr>tt_option = Option_IgnoreLeadingWhitespace, tt_state = TokenTypeState_Finished,
      tt_tokenFound = TokenType_EndOfElement\<rparr>"

lemma endTagReader_found:
  \<open>m_tokenParser (endTagReader d) =
     Some (TokenParser_TokenType (TokenTypeParser_new Option_IgnoreLeadingWhitespace))\<close>
  \<open>tokenParser_parse specCollaborators
     (TokenParser_TokenType (TokenTypeParser_new Option_IgnoreLeadingWhitespace))
     (m_parsingBuffer (endTagReader d)) =
     (Result_Success, TokenParser_TokenType endTagFound, ''a>'')\<close>
  \<open>tokenFound specCollaborators (TokenParser_TokenType endTagFound) = TokenType_EndOfElement\<close>
  \<open>m_documentState (endTagReader d) = d\<close>
  by (simp_all add: endTagReader_def endTagFound_def tt_eval)

text \<open>
  C7. The item parser reports one of the six values of \<open>ItemType\<close>, none of which is a
  CDATA section or an end tag. The reader classifies by the token type of its token parser
  instead: for the token type \<open>CData\<close> \<open>executeParsingStateReadingTokenType\<close> returns
  \<open>ReadingCData\<close>, and for \<open>EndOfElement\<close> it returns \<open>ReadingEndOfElement\<close>, in the
  document state \<open>Element\<close>, and \<open>Error\<close> in every other document state.
\<close>

theorem itemType_values:
  \<open>getItemType i \<in>
     {ItemType_None, ItemType_Whitespace, ItemType_ProcessingInstruction,
      ItemType_DocumentType, ItemType_Comment, ItemType_StartOfElement} \<and>
   (m_tokenParser r = Some p \<and>
    tokenParser_parse C p (m_parsingBuffer r) = (Result_Success, p1, b1) \<and>
    tokenFound C p1 = TokenType_CData \<longrightarrow>
      executeParsingStateReadingTokenType C r =
        Some (if m_documentState r = DocumentState_Element then ParsingState_ReadingCData
              else ParsingState_Error,
              r\<lparr>m_tokenParser := Some p1, m_parsingBuffer := b1\<rparr>)) \<and>
   (m_tokenParser r = Some p \<and>
    tokenParser_parse C p (m_parsingBuffer r) = (Result_Success, p1, b1) \<and>
    tokenFound C p1 = TokenType_EndOfElement \<longrightarrow>
      executeParsingStateReadingTokenType C r =
        Some (if m_documentState r = DocumentState_Element
              then ParsingState_ReadingEndOfElement else ParsingState_Error,
              r\<lparr>m_tokenParser := Some p1, m_parsingBuffer := b1\<rparr>))\<close>
proof (intro conjI impI)
  show "getItemType i \<in>
     {ItemType_None, ItemType_Whitespace, ItemType_ProcessingInstruction,
      ItemType_DocumentType, ItemType_Comment, ItemType_StartOfElement}"
    by (cases "getItemType i") simp_all
next
  assume "m_tokenParser r = Some p \<and>
    tokenParser_parse C p (m_parsingBuffer r) = (Result_Success, p1, b1) \<and>
    tokenFound C p1 = TokenType_CData"
  then show "executeParsingStateReadingTokenType C r =
        Some (if m_documentState r = DocumentState_Element then ParsingState_ReadingCData
              else ParsingState_Error,
              r\<lparr>m_tokenParser := Some p1, m_parsingBuffer := b1\<rparr>)"
    unfolding executeParsingStateReadingTokenType_def
    using readingTokenType_loop_CData[of r p C p1 b1 ParsingState_Error] by simp
next
  assume "m_tokenParser r = Some p \<and>
    tokenParser_parse C p (m_parsingBuffer r) = (Result_Success, p1, b1) \<and>
    tokenFound C p1 = TokenType_EndOfElement"
  then show "executeParsingStateReadingTokenType C r =
        Some (if m_documentState r = DocumentState_Element
              then ParsingState_ReadingEndOfElement else ParsingState_Error,
              r\<lparr>m_tokenParser := Some p1, m_parsingBuffer := b1\<rparr>)"
    unfolding executeParsingStateReadingTokenType_def
    using readingTokenType_loop_EndOfElement[of r p C p1 b1 ParsingState_Error] by simp
qed

theorem itemType_values_witness:
  \<open>map_option fst (executeParsingStateReadingTokenType specCollaborators
      (cdataReader DocumentState_Element)) = Some ParsingState_ReadingCData \<and>
   map_option fst (executeParsingStateReadingTokenType specCollaborators
      (endTagReader DocumentState_Element)) = Some ParsingState_ReadingEndOfElement \<and>
   map_option fst (executeParsingStateReadingTokenType specCollaborators
      (endTagReader DocumentState_Epilog)) = Some ParsingState_Error\<close>
proof -
  let ?p = "TokenParser_TokenType (TokenTypeParser_new Option_IgnoreLeadingWhitespace)"
  note t = itemType_values
  note c = cdataReader_found
  note e = endTagReader_found
  from t[of _ "cdataReader DocumentState_Element" ?p specCollaborators
      "TokenParser_TokenType cdataFound" \<open>''[CDATA[x]]>''\<close>]
    c(2,4,5) c(3)[of DocumentState_Element]
  have 1: "map_option fst (executeParsingStateReadingTokenType specCollaborators
      (cdataReader DocumentState_Element)) = Some ParsingState_ReadingCData"
    by simp
  from t[of _ "endTagReader DocumentState_Element" ?p specCollaborators
      "TokenParser_TokenType endTagFound" \<open>''a>''\<close>]
    e(1,3,4) e(2)[of DocumentState_Element]
  have 2: "map_option fst (executeParsingStateReadingTokenType specCollaborators
      (endTagReader DocumentState_Element)) = Some ParsingState_ReadingEndOfElement"
    by simp
  from t[of _ "endTagReader DocumentState_Epilog" ?p specCollaborators
      "TokenParser_TokenType endTagFound" \<open>''a>''\<close>]
    e(1,3,4) e(2)[of DocumentState_Epilog]
  have 3: "map_option fst (executeParsingStateReadingTokenType specCollaborators
      (endTagReader DocumentState_Epilog)) = Some ParsingState_Error"
    by simp
  from 1 2 3 show ?thesis by simp
qed

section \<open>Data that arrive in pieces\<close>

subsection \<open>A reader with more data in its buffer\<close>

text \<open>
  \<open>parse\<close> reads the buffer only through the token parser and never reads
  \<open>m_lastParsingResult\<close>. \<open>reframe g x r\<close> is the reader \<open>r\<close> with the buffer changed
  by \<open>g\<close> and that member set to \<open>x\<close>. \<open>resumesWith C n g\<close> says what the change means to
  the token parser: it gives the same result with the rest of the buffer changed by
  \<open>g\<close>; or, if \<open>n\<close> is set, a parser that has asked for more data goes on from where it
  has stopped.
\<close>

definition reframe ::
  "('b \<Rightarrow> 'b) \<Rightarrow> ParsingResult \<Rightarrow> ('p, 'b) XmlReader \<Rightarrow> ('p, 'b) XmlReader" where
  "reframe g x r = r\<lparr>m_parsingBuffer := g (m_parsingBuffer r), m_lastParsingResult := x\<rparr>"

definition resumesWith :: "('p, 'b) Collaborators \<Rightarrow> bool \<Rightarrow> ('b \<Rightarrow> 'b) \<Rightarrow> bool" where
  "resumesWith C n g \<longleftrightarrow>
     (\<forall>p b. case tokenParser_parse C p b of
              (res, p1, b1) \<Rightarrow>
                if n \<and> res = Result_NeedMoreData
                then tokenParser_parse C p (g b) = tokenParser_parse C p1 (g b1)
                else tokenParser_parse C p (g b) = (res, p1, g b1))"

lemma resumesWith_id: "resumesWith C False (\<lambda>b. b)"
  by (simp add: resumesWith_def split: prod.splits)

lemma resumesWithD:
  assumes "resumesWith C n g" and "tokenParser_parse C p b = (res, p1, b1)"
  shows "n \<and> res = Result_NeedMoreData \<Longrightarrow>
           tokenParser_parse C p (g b) = tokenParser_parse C p1 (g b1)"
    and "\<not> (n \<and> res = Result_NeedMoreData) \<Longrightarrow> tokenParser_parse C p (g b) = (res, p1, g b1)"
  using assms unfolding resumesWith_def by (auto split: prod.splits if_splits dest!: spec)

lemma reframe_simps [simp]:
  "m_documentState (reframe g x r) = m_documentState r"
  "m_parsingState (reframe g x r) = m_parsingState r"
  "m_lastParsingResult (reframe g x r) = x"
  "m_parsingBuffer (reframe g x r) = g (m_parsingBuffer r)"
  "m_xmlDeclaration (reframe g x r) = m_xmlDeclaration r"
  "m_processingInstruction (reframe g x r) = m_processingInstruction r"
  "m_tokenParser (reframe g x r) = m_tokenParser r"
  by (simp_all add: reframe_def)

lemma reframe_update:
  "reframe g x (r\<lparr>m_tokenParser := p\<rparr>) = (reframe g x r)\<lparr>m_tokenParser := p\<rparr>"
  "reframe g x (r\<lparr>m_documentState := d\<rparr>) = (reframe g x r)\<lparr>m_documentState := d\<rparr>"
  "reframe g x (r\<lparr>m_parsingState := s\<rparr>) = (reframe g x r)\<lparr>m_parsingState := s\<rparr>"
  "reframe g x (r\<lparr>m_xmlDeclaration := xd\<rparr>) = (reframe g x r)\<lparr>m_xmlDeclaration := xd\<rparr>"
  "reframe g x (r\<lparr>m_processingInstruction := pi\<rparr>) =
     (reframe g x r)\<lparr>m_processingInstruction := pi\<rparr>"
  "reframe g x (r\<lparr>m_parsingBuffer := b\<rparr>) = (reframe g x r)\<lparr>m_parsingBuffer := g b\<rparr>"
  by (simp_all add: reframe_def)

lemma readingTokenType_cycle_reframe:
  assumes H: "resumesWith C n g"
    and ns: "ns \<noteq> ParsingState_ReadingTokenType"
    and c: "readingTokenType_cycle C ns r = Some c"
  shows "case c of
           AnotherCycle r' \<Rightarrow>
             readingTokenType_cycle C ns (reframe g x r) = Some (AnotherCycle (reframe g x r'))
         | Finish (s, r') \<Rightarrow>
             if n \<and> s = ParsingState_ReadingTokenType
             then readingTokenType_cycle C ns (reframe g x r) =
                  readingTokenType_cycle C ns (reframe g x r')
             else readingTokenType_cycle C ns (reframe g x r) = Some (Finish (s, reframe g x r'))"
proof -
  from c obtain p where p: "m_tokenParser r = Some p"
    by (auto simp: readingTokenType_cycle_def split: option.splits)
  obtain res p1 b1 where t: "tokenParser_parse C p (m_parsingBuffer r) = (res, p1, b1)"
    by (cases "tokenParser_parse C p (m_parsingBuffer r)")
  note h = resumesWithD[OF H t]
  show ?thesis
  proof (cases "n \<and> res = Result_NeedMoreData")
    case True
    with c p t have c': "c = Finish (ParsingState_ReadingTokenType,
        r\<lparr>m_tokenParser := Some p1, m_parsingBuffer := b1\<rparr>)"
      by (simp add: readingTokenType_cycle_def)
    obtain res2 p2 b2 where t2: "tokenParser_parse C p1 (g b1) = (res2, p2, b2)"
      by (cases "tokenParser_parse C p1 (g b1)")
    from h(1)[OF True] t2 p True show ?thesis
      unfolding c' by (simp add: readingTokenType_cycle_def reframe_def setTokenParser_def)
  next
    case False
    note t' = h(2)[OF False]
    show ?thesis
    proof (cases res)
      case Result_NeedMoreData
      with c p t t' False show ?thesis
        by (auto simp: readingTokenType_cycle_def reframe_def)
    next
      case Result_Error
      with c p t t' ns show ?thesis
        by (auto simp: readingTokenType_cycle_def reframe_def)
    next
      case Result_Success
      show ?thesis
      proof (cases "tokenFound C p1")
        case TokenType_Whitespace
        with Result_Success c p t t' ns show ?thesis
          by (cases "setOption C Option_IgnoreLeadingWhitespace p1")
             (auto simp: readingTokenType_cycle_def reframe_def Let_def split: if_splits)
      qed (use Result_Success c p t t' ns in
            \<open>auto simp: readingTokenType_cycle_def reframe_def setTokenParser_def Let_def
                split: if_splits\<close>)
    qed
  qed
qed


lemma readingTokenType_loop_reframe:
  assumes H: "resumesWith C n g"
    and ns: "ns \<noteq> ParsingState_ReadingTokenType"
    and run: "readingTokenType_loop C ns r = Some (s, r')"
  shows "if n \<and> s = ParsingState_ReadingTokenType
         then readingTokenType_loop C ns (reframe g x r) =
              readingTokenType_loop C ns (reframe g x r')
         else readingTokenType_loop C ns (reframe g x r) = Some (s, reframe g x r')"
proof -
  let ?L = "\<lambda>r. readingTokenType_loop C ns (reframe g x r)"
  let ?I = "\<lambda>r0. ?L r = ?L r0"
  let ?Q = "\<lambda>y. if n \<and> fst y = ParsingState_ReadingTokenType
                then ?L r = ?L (snd y) else ?L r = Some (fst y, reframe g x (snd y))"
  have "?Q (s, r')"
  proof (rule readingTokenType_loop_rule[OF run, where I = ?I])
    show "?I r" by simp
  next
    fix r0 r1 assume i: "?I r0" and c: "readingTokenType_cycle C ns r0 = Some (AnotherCycle r1)"
    from readingTokenType_cycle_reframe[OF H ns c, of x]
    have "readingTokenType_cycle C ns (reframe g x r0) = Some (AnotherCycle (reframe g x r1))"
      by simp
    then have "?L r0 = ?L r1"
      by (simp add: readingTokenType_loop.simps[of C ns "reframe g x r0"])
    with i show "?I r1" by simp
  next
    fix r0 y assume i: "?I r0" and c: "readingTokenType_cycle C ns r0 = Some (Finish y)"
    obtain a b where y: "y = (a, b)" by (cases y)
    note f = readingTokenType_cycle_reframe[OF H ns c[unfolded y], of x, simplified]
    show "?Q y"
    proof (cases "n \<and> a = ParsingState_ReadingTokenType")
      case True
      with f have "readingTokenType_cycle C ns (reframe g x r0) =
                   readingTokenType_cycle C ns (reframe g x b)" by simp
      then have "?L r0 = ?L b"
        by (simp add: readingTokenType_loop.simps[of C ns "reframe g x r0"]
            readingTokenType_loop.simps[of C ns "reframe g x b"])
      with i True y show ?thesis by simp
    next
      case False
      with f have "readingTokenType_cycle C ns (reframe g x r0) = Some (Finish (a, reframe g x b))"
        by auto
      then have "?L r0 = Some (a, reframe g x b)"
        by (simp add: readingTokenType_loop.simps[of C ns "reframe g x r0"])
      with i False y show ?thesis by auto
    qed
  qed
  then show ?thesis by simp
qed

lemma executeParsingStateReadingProcessingInstruction_reframe:
  assumes H: "resumesWith C n g"
    and run: "executeParsingStateReadingProcessingInstruction C r = Some (s, r')"
  shows "if n \<and> s = ParsingState_ReadingProcessingInstruction
         then executeParsingStateReadingProcessingInstruction C (reframe g x r) =
              executeParsingStateReadingProcessingInstruction C (reframe g x r')
         else executeParsingStateReadingProcessingInstruction C (reframe g x r) =
              Some (s, reframe g x r')"
proof -
  from run obtain p where p: "m_tokenParser r = Some p"
    by (auto simp: executeParsingStateReadingProcessingInstruction_def split: option.splits)
  obtain res p1 b1 where t: "tokenParser_parse C p (m_parsingBuffer r) = (res, p1, b1)"
    by (cases "tokenParser_parse C p (m_parsingBuffer r)")
  note h = resumesWithD[OF H t]
  show ?thesis
  proof (cases "n \<and> res = Result_NeedMoreData")
    case True
    with run p t have c': "s = ParsingState_ReadingProcessingInstruction"
      "r' = r\<lparr>m_tokenParser := Some p1, m_parsingBuffer := b1\<rparr>"
      by (simp_all add: executeParsingStateReadingProcessingInstruction_def)
    obtain res2 p2 b2 where t2: "tokenParser_parse C p1 (g b1) = (res2, p2, b2)"
      by (cases "tokenParser_parse C p1 (g b1)")
    from h(1)[OF True] t2 p True show ?thesis
      unfolding c' by (simp add: executeParsingStateReadingProcessingInstruction_def reframe_def)
  next
    case False
    note t' = h(2)[OF False]
    show ?thesis
    proof (cases res)
      case Result_NeedMoreData
      with run p t t' False show ?thesis
        by (auto simp: executeParsingStateReadingProcessingInstruction_def reframe_def)
    next
      case Result_Error
      with run p t t' show ?thesis
        by (auto simp: executeParsingStateReadingProcessingInstruction_def reframe_def)
    next
      case Result_Success
      show ?thesis
        by (cases "tokenFound C p1")
           (use Result_Success run p t t' in
            \<open>auto simp: executeParsingStateReadingProcessingInstruction_def reframe_def Let_def
                split: if_splits\<close>)
    qed
  qed
qed


lemma parse_cycle_reframe:
  assumes H: "resumesWith C n g"
    and res: "res \<noteq> ParsingResult_NeedMoreData"
    and c: "parse_cycle C res r = Some c"
  shows "case c of
           AnotherCycle r' \<Rightarrow>
             parse_cycle C res (reframe g x r) = Some (AnotherCycle (reframe g x r'))
         | Finish (a, r') \<Rightarrow>
             if n \<and> a = ParsingResult_NeedMoreData
             then parse_cycle C res (reframe g x r) = parse_cycle C res (reframe g x r')
             else parse_cycle C res (reframe g x r) = Some (Finish (a, reframe g x r'))"
proof (cases "m_parsingState r = ParsingState_ReadingTokenType")
  case True
  with c obtain s r1 where
    e: "readingTokenType_loop C ParsingState_Error r = Some (s, r1)"
    by (auto simp: parse_cycle_def executeParsingStateReadingTokenType_def split: option.splits)
  have ns: "ParsingState_Error \<noteq> ParsingState_ReadingTokenType" by simp
  note l = readingTokenType_loop_reframe[OF H ns e, of x]
  from readingTokenType_loop_props(1)[OF e] True
  have s1: "m_parsingState r1 = ParsingState_ReadingTokenType" by simp
  show ?thesis
  proof (cases "s = ParsingState_ReadingTokenType")
    case s: True
    from s1 have r1: "r1\<lparr>m_parsingState := ParsingState_ReadingTokenType\<rparr> = r1" by simp
    from c True e s r1 have c': "c = Finish (ParsingResult_NeedMoreData, r1)"
      by (simp add: parse_cycle_def executeParsingStateReadingTokenType_def)
    show ?thesis
    proof (cases n)
      case True
      with l s have "readingTokenType_loop C ParsingState_Error (reframe g x r) =
                     readingTokenType_loop C ParsingState_Error (reframe g x r1)" by simp
      with \<open>m_parsingState r = ParsingState_ReadingTokenType\<close> s1 True show ?thesis
        unfolding c' by (simp add: parse_cycle_def executeParsingStateReadingTokenType_def)
    next
      case False
      with l have "readingTokenType_loop C ParsingState_Error (reframe g x r) =
                   Some (s, reframe g x r1)" by simp
      with \<open>m_parsingState r = ParsingState_ReadingTokenType\<close> s False r1 show ?thesis
        unfolding c'
        by (simp add: parse_cycle_def executeParsingStateReadingTokenType_def reframe_update(3)[symmetric])
    qed
  next
    case s: False
    with l have l': "readingTokenType_loop C ParsingState_Error (reframe g x r) =
                     Some (s, reframe g x r1)" by simp
    from c True e s l' res show ?thesis
      by (auto simp: parse_cycle_def executeParsingStateReadingTokenType_def reframe_update
          split: if_splits)
  qed
next
  case nt: False
  show ?thesis
  proof (cases "m_parsingState r = ParsingState_ReadingProcessingInstruction")
    case True
    with c obtain s r1 where
      e: "executeParsingStateReadingProcessingInstruction C r = Some (s, r1)"
      by (auto simp: parse_cycle_def split: option.splits)
    note l = executeParsingStateReadingProcessingInstruction_reframe[OF H e, of x]
    from executeParsingStateReadingProcessingInstruction_props(1)[OF e] True
    have s1: "m_parsingState r1 = ParsingState_ReadingProcessingInstruction" by simp
    show ?thesis
    proof (cases "s = ParsingState_ReadingProcessingInstruction")
      case s: True
      from s1 have r1: "r1\<lparr>m_parsingState := ParsingState_ReadingProcessingInstruction\<rparr> = r1"
        by simp
      from c True e s r1 have c': "c = Finish (ParsingResult_NeedMoreData, r1)"
        by (simp add: parse_cycle_def)
      show ?thesis
      proof (cases n)
        case n: True
        with l s have "executeParsingStateReadingProcessingInstruction C (reframe g x r) =
                       executeParsingStateReadingProcessingInstruction C (reframe g x r1)" by simp
        with True s1 n show ?thesis
          unfolding c' by (simp add: parse_cycle_def)
      next
        case False
        with l have "executeParsingStateReadingProcessingInstruction C (reframe g x r) =
                     Some (s, reframe g x r1)" by simp
        with True s False r1 show ?thesis
          unfolding c' by (simp add: parse_cycle_def reframe_update(3)[symmetric])
      qed
    next
      case s: False
      with l have l': "executeParsingStateReadingProcessingInstruction C (reframe g x r) =
                       Some (s, reframe g x r1)" by simp
      from c True e s l' res show ?thesis
        by (auto simp: parse_cycle_def reframe_update split: if_splits)
    qed
  next
    case False
    with nt c res show ?thesis
      by (cases "m_parsingState r")
         (auto simp: parse_cycle_def setTokenParser_def reframe_update split: if_splits)
  qed
qed

lemma parse_loop_reframe:
  assumes H: "resumesWith C n g"
    and res: "res \<noteq> ParsingResult_NeedMoreData"
    and run: "parse_loop C res r = Some (a, r')"
  shows "if n \<and> a = ParsingResult_NeedMoreData
         then parse_loop C res (reframe g x r) = parse_loop C res (reframe g x r')
         else parse_loop C res (reframe g x r) = Some (a, reframe g x r')"
proof -
  let ?L = "\<lambda>r. parse_loop C res (reframe g x r)"
  let ?I = "\<lambda>r0. ?L r = ?L r0"
  let ?Q = "\<lambda>y. if n \<and> fst y = ParsingResult_NeedMoreData
                then ?L r = ?L (snd y) else ?L r = Some (fst y, reframe g x (snd y))"
  have "?Q (a, r')"
  proof (rule parse_loop_rule[OF run, where I = ?I])
    show "?I r" by simp
  next
    fix r0 r1 assume i: "?I r0" and c: "parse_cycle C res r0 = Some (AnotherCycle r1)"
    from parse_cycle_reframe[OF H res c, of x]
    have "parse_cycle C res (reframe g x r0) = Some (AnotherCycle (reframe g x r1))" by simp
    then have "?L r0 = ?L r1" by (simp add: parse_loop.simps[of C res "reframe g x r0"])
    with i show "?I r1" by simp
  next
    fix r0 y assume i: "?I r0" and c: "parse_cycle C res r0 = Some (Finish y)"
    obtain b d where y: "y = (b, d)" by (cases y)
    note f = parse_cycle_reframe[OF H res c[unfolded y], of x, simplified]
    show "?Q y"
    proof (cases "n \<and> b = ParsingResult_NeedMoreData")
      case True
      with f have "parse_cycle C res (reframe g x r0) = parse_cycle C res (reframe g x d)"
        by simp
      then have "?L r0 = ?L d"
        by (simp add: parse_loop.simps[of C res "reframe g x r0"]
            parse_loop.simps[of C res "reframe g x d"])
      with i True y show ?thesis by simp
    next
      case False
      with f have "parse_cycle C res (reframe g x r0) = Some (Finish (b, reframe g x d))"
        by auto
      then have "?L r0 = Some (b, reframe g x d)"
        by (simp add: parse_loop.simps[of C res "reframe g x r0"])
      with i False y show ?thesis by auto
    qed
  qed
  then show ?thesis by simp
qed

text \<open>\<open>parse\<close> does not read \<open>m_lastParsingResult\<close>.\<close>

lemma parse_lastParsingResult:
  "parse C (r\<lparr>m_lastParsingResult := x\<rparr>) = parse C r"
proof -
  have 1: "parse C (r\<lparr>m_lastParsingResult := x\<rparr>) = Some y" if "parse C r = Some y" for r x y
  proof -
    obtain a r1 where y: "y = (a, r1)" by (cases y)
    from that[unfolded y] obtain r' where
      l: "parse_loop C ParsingResult_Error r = Some (a, r')"
      and r1: "r1 = r'\<lparr>m_lastParsingResult := a\<rparr>" by (rule parse_SomeD)
    from parse_loop_reframe[OF resumesWith_id _ l, of x]
    have "parse_loop C ParsingResult_Error (r\<lparr>m_lastParsingResult := x\<rparr>) =
            Some (a, r'\<lparr>m_lastParsingResult := x\<rparr>)"
      by (simp add: reframe_def)
    with r1 y show ?thesis by (simp add: parse_def)
  qed
  show ?thesis
  proof (cases "parse C r")
    case (Some y)
    from 1[OF this] Some show ?thesis by simp
  next
    case None
    show ?thesis
    proof (cases "parse C (r\<lparr>m_lastParsingResult := x\<rparr>)")
      case (Some y)
      from 1[OF this, of "m_lastParsingResult r"] None show ?thesis by simp
    qed (simp add: None)
  qed
qed

text \<open>
  More data in the buffer: a call of \<open>parse\<close> that has returned a token or \<open>Error\<close>
  returns the same with the data still in the buffer, and one that has asked for more
  data goes on from the reader it has left.
\<close>

lemma parse_writeData:
  assumes H: "\<And>d. resumesWith C True (\<lambda>b. snd (buffer_writeData C d b))"
    and p: "parse C r = Some (a, r1)"
  shows "a \<noteq> ParsingResult_NeedMoreData \<Longrightarrow>
           parse C (snd (writeData C d r)) = Some (a, snd (writeData C d r1))"
    and "a = ParsingResult_NeedMoreData \<Longrightarrow>
           parse C (snd (writeData C d r)) = parse C (snd (writeData C d r1))"
proof -
  let ?g = "\<lambda>b. snd (buffer_writeData C d b)"
  have w: "snd (writeData C d r) = reframe ?g (m_lastParsingResult r) r" for r
    by (simp add: writeData_def reframe_def split: prod.splits)
  from p obtain r' where
    l: "parse_loop C ParsingResult_Error r = Some (a, r')"
    and r1: "r1 = r'\<lparr>m_lastParsingResult := a\<rparr>" by (rule parse_SomeD)
  note f = parse_loop_reframe[OF H _ l, of d "m_lastParsingResult r", simplified]
  show "parse C (snd (writeData C d r)) = Some (a, snd (writeData C d r1))"
    if "a \<noteq> ParsingResult_NeedMoreData"
    using f that r1 by (simp add: parse_def w reframe_def)
  show "parse C (snd (writeData C d r)) = parse C (snd (writeData C d r1))"
    if "a = ParsingResult_NeedMoreData"
  proof -
    from f that
    have "parse_loop C ParsingResult_Error (reframe ?g (m_lastParsingResult r) r) =
          parse_loop C ParsingResult_Error (reframe ?g (m_lastParsingResult r) r')" by simp
    then have "parse C (snd (writeData C d r)) = parse C (reframe ?g (m_lastParsingResult r) r')"
      by (simp add: parse_def w)
    also have "reframe ?g (m_lastParsingResult r) r' =
               (snd (writeData C d r1))\<lparr>m_lastParsingResult := m_lastParsingResult r\<rparr>"
      by (simp add: w r1 reframe_def)
    finally show ?thesis by (simp add: parse_lastParsingResult)
  qed
qed

subsection \<open>The caller's loops\<close>

text \<open>
  What a caller sees of a call of \<open>parse\<close>: the result, and what the getters return
  after it.
\<close>

type_synonym Event = "ParsingResult \<times> XmlDeclaration \<times> ProcessingInstruction"

definition event :: "ParsingResult \<Rightarrow> ('p, 'b) XmlReader \<Rightarrow> Event" where
  "event res r = (res, xmlDeclaration r, processingInstruction r)"

text \<open>
  \<open>drain\<close> is the loop of the demo (Demo/main.cpp): it calls \<open>parse\<close> again after a
  processing instruction and after an XML declaration, and stops at any other result. It
  collects the tokens, and the result that has stopped it unless that is \<open>NeedMoreData\<close>.
  The result is \<open>None\<close> when a call does not return or the calls never end.
\<close>

partial_function (option) drain ::
  "('p, 'b) Collaborators \<Rightarrow> ('p, 'b) XmlReader \<Rightarrow> (Event list \<times> ('p, 'b) XmlReader) option" where
  "drain C r =
     (case parse C r of
        None \<Rightarrow> None
      | Some (res, r1) \<Rightarrow>
          if res = ParsingResult_ProcessingInstruction \<or> res = ParsingResult_XmlDeclaration
          then Option.bind (drain C r1) (\<lambda>y. Some (event res r1 # fst y, snd y))
          else if res = ParsingResult_NeedMoreData then Some ([], r1)
          else Some ([event res r1], r1))"

text \<open>
  \<open>feed\<close> writes the chunks one at a time and drains the reader after each; it goes on
  to the next chunk when the reader has asked for more data, and stops at any other
  result, which is terminal.
\<close>

fun feed ::
  "('p, 'b) Collaborators \<Rightarrow> string list \<Rightarrow> ('p, 'b) XmlReader
     \<Rightarrow> (Event list \<times> ('p, 'b) XmlReader) option" where
  "feed C [] r = Some ([], r)"
| "feed C (d # ds) r =
     (case drain C (snd (writeData C d r)) of
        None \<Rightarrow> None
      | Some (es, r1) \<Rightarrow>
          if lastParsingResult r1 = ParsingResult_NeedMoreData then
            (case feed C ds r1 of
               None \<Rightarrow> None
             | Some (es', r2) \<Rightarrow> Some (es @ es', r2))
          else Some (es, r1))"

text \<open>
  The token parsers the reader can be fed in pieces with: a parser that has asked for
  more data goes on from where it has stopped when data are appended, and any other
  result is the same with the data appended to the rest; appending in two steps is
  appending at once; and by a measure of the buffer a parser that finds whitespace, a
  processing instruction or an XML declaration leaves less in the buffer than it has
  found there.
\<close>

definition resumable :: "('p, 'b) Collaborators \<Rightarrow> ('b \<Rightarrow> nat) \<Rightarrow> bool" where
  "resumable C sz \<longleftrightarrow>
     (\<forall>d. resumesWith C True (\<lambda>b. snd (buffer_writeData C d b))) \<and>
     (\<forall>d e b. snd (buffer_writeData C (d @ e) b) =
               snd (buffer_writeData C e (snd (buffer_writeData C d b)))) \<and>
     (\<forall>p b p1 b1.
        tokenParser_parse C p b = (Result_Success, p1, b1) \<and>
        (tokenFound C p1 = TokenType_Whitespace \<or>
         tokenFound C p1 = TokenType_ProcessingInstruction \<or>
         tokenFound C p1 = TokenType_XmlDeclaration) \<longrightarrow> sz b1 < sz b)"

text \<open>A reader that reads a token has a token parser.\<close>

definition hasParser :: "('p, 'b) XmlReader \<Rightarrow> bool" where
  "hasParser r \<longleftrightarrow>
     (m_parsingState r = ParsingState_ReadingTokenType \<or>
      m_parsingState r = ParsingState_ReadingProcessingInstruction \<longrightarrow> m_tokenParser r \<noteq> None)"

lemma readingTokenType_cycle_total:
  assumes "m_tokenParser r = Some p"
  shows "\<exists>c. readingTokenType_cycle C ns r = Some c"
  using assms unfolding readingTokenType_cycle_def Let_def setTokenParser_def
  by (auto split: prod.splits Result.splits TokenType.splits)

lemma readingTokenType_cycle_parser:
  assumes "readingTokenType_cycle C ns r = Some c"
  shows "case c of AnotherCycle r1 \<Rightarrow> m_tokenParser r1 \<noteq> None
                 | Finish (s, r1) \<Rightarrow> m_tokenParser r1 \<noteq> None"
  using assms unfolding readingTokenType_cycle_def Let_def setTokenParser_def
  by (auto split: option.splits prod.splits Result.splits TokenType.splits if_splits)

lemma readingTokenType_cycle_size:
  assumes R: "resumable C sz"
    and c: "readingTokenType_cycle C ns r = Some c"
  shows "case c of AnotherCycle r1 \<Rightarrow> sz (m_parsingBuffer r1) < sz (m_parsingBuffer r)
                 | Finish (s, r1) \<Rightarrow>
                     s = ParsingState_ReadingProcessingInstruction \<longrightarrow> ns \<noteq> s \<longrightarrow>
                     sz (m_parsingBuffer r1) < sz (m_parsingBuffer r)"
proof -
  from c obtain p where p: "m_tokenParser r = Some p"
    by (auto simp: readingTokenType_cycle_def split: option.splits)
  obtain res p1 b1 where t: "tokenParser_parse C p (m_parsingBuffer r) = (res, p1, b1)"
    by (cases "tokenParser_parse C p (m_parsingBuffer r)")
  have s: "sz b1 < sz (m_parsingBuffer r)"
    if "res = Result_Success" "tokenFound C p1 = TokenType_Whitespace \<or>
         tokenFound C p1 = TokenType_ProcessingInstruction"
    using R t that unfolding resumable_def by blast
  show ?thesis
  proof (cases res)
    case Result_Success
    show ?thesis
    proof (cases "tokenFound C p1")
      case TokenType_Whitespace
      with Result_Success c p t s show ?thesis
        by (cases "setOption C Option_IgnoreLeadingWhitespace p1")
           (auto simp: readingTokenType_cycle_def Let_def split: if_splits)
    next
      case TokenType_ProcessingInstruction
      with Result_Success c p t s show ?thesis
        by (auto simp: readingTokenType_cycle_def Let_def setTokenParser_def split: if_splits)
    qed (use Result_Success c p t in
          \<open>auto simp: readingTokenType_cycle_def Let_def split: if_splits\<close>)
  qed (use c p t in \<open>auto simp: readingTokenType_cycle_def\<close>)
qed

text \<open>The loop over the whitespace ends: every further cycle has less in the buffer.\<close>

lemma readingTokenType_loop_total:
  assumes R: "resumable C sz" and ns: "ns \<noteq> ParsingState_ReadingProcessingInstruction"
  shows "m_tokenParser r \<noteq> None \<Longrightarrow>
         \<exists>s r1. readingTokenType_loop C ns r = Some (s, r1) \<and> m_tokenParser r1 \<noteq> None \<and>
                (s = ParsingState_ReadingProcessingInstruction \<longrightarrow>
                   sz (m_parsingBuffer r1) < sz (m_parsingBuffer r))"
proof (induction "sz (m_parsingBuffer r)" arbitrary: r rule: less_induct)
  case less
  from less.prems obtain p where p: "m_tokenParser r = Some p" by auto
  from readingTokenType_cycle_total[OF p] obtain c where
    c: "readingTokenType_cycle C ns r = Some c" by blast
  note z = readingTokenType_cycle_size[OF R c] and q = readingTokenType_cycle_parser[OF c]
  show ?case
  proof (cases c)
    case (AnotherCycle r1)
    with z q have l: "sz (m_parsingBuffer r1) < sz (m_parsingBuffer r)"
      and t: "m_tokenParser r1 \<noteq> None" by simp_all
    from less.hyps[OF l t] obtain s r2 where
      "readingTokenType_loop C ns r1 = Some (s, r2)" "m_tokenParser r2 \<noteq> None"
      "s = ParsingState_ReadingProcessingInstruction \<longrightarrow>
         sz (m_parsingBuffer r2) < sz (m_parsingBuffer r1)" by blast
    with c AnotherCycle l show ?thesis
      by (auto simp: readingTokenType_loop.simps[of C ns r])
  next
    case (Finish y)
    obtain s r1 where y: "y = (s, r1)" by (cases y)
    with c Finish z q ns show ?thesis
      by (auto simp: readingTokenType_loop.simps[of C ns r])
  qed
qed


lemma executeParsingStateReadingProcessingInstruction_total:
  assumes R: "resumable C sz" and p: "m_tokenParser r \<noteq> None"
  shows "\<exists>s r1. executeParsingStateReadingProcessingInstruction C r = Some (s, r1) \<and>
           m_tokenParser r1 \<noteq> None \<and>
           (s = ParsingState_ProcessingInstructionRead \<or> s = ParsingState_XmlDeclarationRead \<longrightarrow>
              sz (m_parsingBuffer r1) < sz (m_parsingBuffer r))"
proof -
  from p obtain q where q: "m_tokenParser r = Some q" by auto
  obtain res p1 b1 where t: "tokenParser_parse C q (m_parsingBuffer r) = (res, p1, b1)"
    by (cases "tokenParser_parse C q (m_parsingBuffer r)")
  have s: "sz b1 < sz (m_parsingBuffer r)"
    if "res = Result_Success" "tokenFound C p1 = TokenType_ProcessingInstruction \<or>
         tokenFound C p1 = TokenType_XmlDeclaration"
    using R t that unfolding resumable_def by blast
  show ?thesis
  proof (cases res)
    case Result_Success
    show ?thesis
      by (cases "tokenFound C p1")
         (use Result_Success q t s in
           \<open>auto simp: executeParsingStateReadingProcessingInstruction_def Let_def\<close>)
  qed (use q t in \<open>auto simp: executeParsingStateReadingProcessingInstruction_def\<close>)
qed

text \<open>With such token parsers every call of \<open>parse\<close> returns, and a call that returns a
  token leaves less in the buffer.\<close>

definition tokenRead :: "('p, 'b) XmlReader \<Rightarrow> bool" where
  "tokenRead r \<longleftrightarrow>
     m_parsingState r = ParsingState_ProcessingInstructionRead \<or>
     m_parsingState r = ParsingState_XmlDeclarationRead"

lemma parse_loop_total_ReadingProcessingInstruction:
  assumes R: "resumable C sz"
    and s: "m_parsingState r = ParsingState_ReadingProcessingInstruction"
    and p: "m_tokenParser r \<noteq> None"
  shows "\<exists>res r1. parse_loop C ParsingResult_Error r = Some (res, r1) \<and> hasParser r1 \<and>
           (tokenRead r1 \<longrightarrow> sz (m_parsingBuffer r1) < sz (m_parsingBuffer r))"
proof -
  from executeParsingStateReadingProcessingInstruction_total[OF R p] obtain ns r' where
    e: "executeParsingStateReadingProcessingInstruction C r = Some (ns, r')"
    and q: "m_tokenParser r' \<noteq> None"
    and z: "ns = ParsingState_ProcessingInstructionRead \<or> ns = ParsingState_XmlDeclarationRead \<longrightarrow>
              sz (m_parsingBuffer r') < sz (m_parsingBuffer r)" by blast
  from s e q z show ?thesis
    by (auto simp: parse_loop.simps[of C _ r] parse_cycle_def hasParser_def tokenRead_def)
qed

lemma parse_loop_total_ReadingTokenType:
  assumes R: "resumable C sz"
    and s: "m_parsingState r = ParsingState_ReadingTokenType"
    and p: "m_tokenParser r \<noteq> None"
  shows "\<exists>res r1. parse_loop C ParsingResult_Error r = Some (res, r1) \<and> hasParser r1 \<and>
           (tokenRead r1 \<longrightarrow> sz (m_parsingBuffer r1) < sz (m_parsingBuffer r))"
proof -
  have ns: "ParsingState_Error \<noteq> ParsingState_ReadingProcessingInstruction" by simp
  from readingTokenType_loop_total[OF R ns p] obtain ns r' where
    e: "readingTokenType_loop C ParsingState_Error r = Some (ns, r')"
    and q: "m_tokenParser r' \<noteq> None"
    and z: "ns = ParsingState_ReadingProcessingInstruction \<longrightarrow>
              sz (m_parsingBuffer r') < sz (m_parsingBuffer r)" by blast
  show ?thesis
  proof (cases "ns = ParsingState_ReadingProcessingInstruction")
    case True
    let ?r1 = "r'\<lparr>m_parsingState := ParsingState_ReadingProcessingInstruction\<rparr>"
    from s e True have c: "parse_cycle C ParsingResult_Error r = Some (AnotherCycle ?r1)"
      by (simp add: parse_cycle_def executeParsingStateReadingTokenType_def readsToken_def)
    have "m_parsingState ?r1 = ParsingState_ReadingProcessingInstruction"
      and "m_tokenParser ?r1 \<noteq> None" using q by simp_all
    from parse_loop_total_ReadingProcessingInstruction[OF R this] obtain res r1 where
      "parse_loop C ParsingResult_Error ?r1 = Some (res, r1)" "hasParser r1"
      "tokenRead r1 \<longrightarrow> sz (m_parsingBuffer r1) < sz (m_parsingBuffer ?r1)" by blast
    with c z True show ?thesis
      by (auto simp: parse_loop.simps[of C _ r])
  next
    case False
    show ?thesis
    proof (cases "readsToken ns")
      case True
      let ?r1 = "r'\<lparr>m_parsingState := ns\<rparr>"
      from True have n: "ns \<noteq> ParsingState_ReadingTokenType" by (auto simp: readsToken_def)
      from s e True n have c: "parse_cycle C ParsingResult_Error r = Some (AnotherCycle ?r1)"
        by (simp add: parse_cycle_def executeParsingStateReadingTokenType_def)
      from True False have "parse_loop C ParsingResult_Error ?r1 =
          Some (ParsingResult_Error, ?r1\<lparr>m_parsingState := ParsingState_Error\<rparr>)"
        by (auto simp: parse_loop.simps[of C _ ?r1] parse_cycle_def readsToken_def)
      with c show ?thesis
        by (simp add: parse_loop.simps[of C _ r] hasParser_def tokenRead_def)
    next
      case nr: False
      with s e q show ?thesis
        by (auto simp: parse_loop.simps[of C _ r] parse_cycle_def
            executeParsingStateReadingTokenType_def hasParser_def tokenRead_def)
    qed
  qed
qed

lemma parse_loop_total:
  assumes R: "resumable C sz" and h: "hasParser r"
  shows "\<exists>res r1. parse_loop C ParsingResult_Error r = Some (res, r1) \<and> hasParser r1 \<and>
           (tokenRead r1 \<longrightarrow> sz (m_parsingBuffer r1) < sz (m_parsingBuffer r))"
proof -
  have start: ?thesis
    if c: "parse_cycle C ParsingResult_Error r =
             (case setTokenParser C p0 r of
                (ok, r1) \<Rightarrow>
                  if ok then Some (AnotherCycle (f r1))
                  else Some (Finish (ParsingResult_Error, r1\<lparr>m_parsingState := ParsingState_Error\<rparr>)))"
      and f: "\<And>r1. m_parsingState (f r1) = ParsingState_ReadingTokenType \<and>
                    m_tokenParser (f r1) = m_tokenParser r1 \<and>
                    m_parsingBuffer (f r1) = m_parsingBuffer r1"
    for p0 f
  proof (cases "isValid C p0")
    case True
    let ?r1 = "f (r\<lparr>m_tokenParser := Some p0\<rparr>)"
    from c True have c': "parse_cycle C ParsingResult_Error r = Some (AnotherCycle ?r1)"
      by (simp add: setTokenParser_def)
    from f[of "r\<lparr>m_tokenParser := Some p0\<rparr>"]
    have "m_parsingState ?r1 = ParsingState_ReadingTokenType" "m_tokenParser ?r1 \<noteq> None"
      and b: "m_parsingBuffer ?r1 = m_parsingBuffer r" by simp_all
    from parse_loop_total_ReadingTokenType[OF R this(1,2)] b c' show ?thesis
      by (auto simp: parse_loop.simps[of C _ r])
  next
    case False
    with c show ?thesis
      by (simp add: parse_loop.simps[of C _ r] setTokenParser_def hasParser_def tokenRead_def)
  qed
  show ?thesis
  proof (cases "m_parsingState r")
    case ParsingState_Idle
    show ?thesis
      by (rule start[where ?p0.0 = "newTokenTypeParser C Option_None" and
            f = "\<lambda>r1. r1\<lparr>m_documentState := DocumentState_PrologWaitForXmlDeclaration,
                          m_parsingState := ParsingState_ReadingTokenType\<rparr>"])
         (simp_all add: parse_cycle_def ParsingState_Idle split: prod.splits)
  next
    case ParsingState_ProcessingInstructionRead
    show ?thesis
      by (rule start[where ?p0.0 = "newTokenTypeParser C Option_IgnoreLeadingWhitespace" and
            f = "\<lambda>r1. r1\<lparr>m_parsingState := ParsingState_ReadingTokenType\<rparr>"])
         (simp_all add: parse_cycle_def ParsingState_ProcessingInstructionRead split: prod.splits)
  next
    case ParsingState_XmlDeclarationRead
    show ?thesis
      by (rule start[where ?p0.0 = "newTokenTypeParser C Option_IgnoreLeadingWhitespace" and
            f = "\<lambda>r1. r1\<lparr>m_parsingState := ParsingState_ReadingTokenType\<rparr>"])
         (simp_all add: parse_cycle_def ParsingState_XmlDeclarationRead split: prod.splits)
  next
    case ParsingState_ReadingTokenType
    with h have "m_tokenParser r \<noteq> None" by (simp add: hasParser_def)
    from parse_loop_total_ReadingTokenType[OF R ParsingState_ReadingTokenType this]
    show ?thesis .
  next
    case ParsingState_ReadingProcessingInstruction
    with h have "m_tokenParser r \<noteq> None" by (simp add: hasParser_def)
    from parse_loop_total_ReadingProcessingInstruction[OF R ParsingState_ReadingProcessingInstruction this]
    show ?thesis .
  qed (simp_all add: parse_loop.simps[of C _ r] parse_cycle_def hasParser_def tokenRead_def)
qed

lemma parse_total:
  assumes R: "resumable C sz" and h: "hasParser r"
  shows "\<exists>res r1. parse C r = Some (res, r1) \<and> hasParser r1 \<and>
           (res \<noteq> ParsingResult_NeedMoreData \<and> res \<noteq> ParsingResult_Error \<longrightarrow>
              sz (m_parsingBuffer r1) < sz (m_parsingBuffer r))"
proof -
  from parse_loop_total[OF R h] obtain res r' where
    l: "parse_loop C ParsingResult_Error r = Some (res, r')" and h': "hasParser r'"
    and z: "tokenRead r' \<longrightarrow> sz (m_parsingBuffer r') < sz (m_parsingBuffer r)" by blast
  have "tokenRead r'" if "res \<noteq> ParsingResult_NeedMoreData" "res \<noteq> ParsingResult_Error"
    using finalResult_token[OF parse_loop_result(1)[OF l] that(2,1)]
    by (auto simp: tokenRead_def)
  with l h' z show ?thesis
    by (auto simp: parse_def hasParser_def)
qed


lemma hasParser_writeData [simp]: "hasParser (snd (writeData C d r)) = hasParser r"
  by (simp add: hasParser_def writeData_frame)

lemma event_writeData [simp]: "event res (snd (writeData C d r)) = event res r"
  by (simp add: event_def xmlDeclaration_def processingInstruction_def writeData_frame)

lemma lastParsingResult_writeData [simp]:
  "lastParsingResult (snd (writeData C d r)) = lastParsingResult r"
  by (simp add: lastParsingResult_def writeData_frame)

text \<open>The caller's loop ends: there is less in the buffer after every token.\<close>

lemma drain_total:
  assumes R: "resumable C sz"
  shows "hasParser r \<Longrightarrow> \<exists>es r1. drain C r = Some (es, r1) \<and> hasParser r1"
proof (induction "sz (m_parsingBuffer r)" arbitrary: r rule: less_induct)
  case less
  from parse_total[OF R less.prems] obtain res r1 where
    p: "parse C r = Some (res, r1)" and h: "hasParser r1"
    and z: "res \<noteq> ParsingResult_NeedMoreData \<and> res \<noteq> ParsingResult_Error \<longrightarrow>
              sz (m_parsingBuffer r1) < sz (m_parsingBuffer r)" by blast
  show ?case
  proof (cases "res = ParsingResult_ProcessingInstruction \<or> res = ParsingResult_XmlDeclaration")
    case False
    with p h show ?thesis by (auto simp: drain.simps[of C r])
  next
    case True
    with z have "sz (m_parsingBuffer r1) < sz (m_parsingBuffer r)" by auto
    from less.hyps[OF this h] obtain es r2 where
      "drain C r1 = Some (es, r2)" "hasParser r2" by blast
    with p True show ?thesis by (auto simp: drain.simps[of C r])
  qed
qed

text \<open>
  Draining, writing and draining again gives what writing first and draining once gives;
  after a terminal result the data written make no difference.
\<close>

lemma drain_writeData:
  assumes R: "resumable C sz"
  shows "hasParser r \<Longrightarrow> drain C r = Some (es, r1) \<Longrightarrow>
         (if lastParsingResult r1 = ParsingResult_NeedMoreData
          then drain C (snd (writeData C d r)) =
               Option.bind (drain C (snd (writeData C d r1))) (\<lambda>y. Some (es @ fst y, snd y))
          else drain C (snd (writeData C d r)) = Some (es, snd (writeData C d r1)))"
proof (induction "sz (m_parsingBuffer r)" arbitrary: r es rule: less_induct)
  case less
  from R have H: "\<And>d. resumesWith C True (\<lambda>b. snd (buffer_writeData C d b))"
    by (simp add: resumable_def)
  from parse_total[OF R less.prems(1)] obtain res r' where
    p: "parse C r = Some (res, r')" and h: "hasParser r'"
    and z: "res \<noteq> ParsingResult_NeedMoreData \<and> res \<noteq> ParsingResult_Error \<longrightarrow>
              sz (m_parsingBuffer r') < sz (m_parsingBuffer r)" by blast
  note w = parse_writeData[OF H p, of d]
  from parse_result(2)[OF p] have l: "lastParsingResult r' = res"
    by (simp add: lastParsingResult_def)
  show ?case
  proof (cases "res = ParsingResult_ProcessingInstruction \<or> res = ParsingResult_XmlDeclaration")
    case True
    then have nm: "res \<noteq> ParsingResult_NeedMoreData" by auto
    from True z have lt: "sz (m_parsingBuffer r') < sz (m_parsingBuffer r)" by auto
    from p True less.prems(2) obtain es' where
      d': "drain C r' = Some (es', r1)" and e: "es = event res r' # es'"
      by (auto simp: drain.simps[of C r] split: Option.bind_splits)
    note IH = less.hyps[OF lt h d']
    from w(1)[OF nm] True
    have u: "drain C (snd (writeData C d r)) =
             Option.bind (drain C (snd (writeData C d r')))
               (\<lambda>y. Some (event res r' # fst y, snd y))"
      by (simp add: drain.simps[of C "snd (writeData C d r)"])
    show ?thesis
    proof (cases "lastParsingResult r1 = ParsingResult_NeedMoreData")
      case True
      with IH u e show ?thesis
        by (cases "drain C (snd (writeData C d r1))") simp_all
    next
      case False
      with IH u e show ?thesis by simp
    qed
  next
    case nt: False
    show ?thesis
    proof (cases "res = ParsingResult_NeedMoreData")
      case True
      with p less.prems(2) have e: "es = []" "r1 = r'" by (auto simp: drain.simps[of C r])
      from w(2)[OF True]
      have "drain C (snd (writeData C d r)) = drain C (snd (writeData C d r'))"
        by (simp add: drain.simps[of C "snd (writeData C d r)"]
            drain.simps[of C "snd (writeData C d r')"])
      with e l True show ?thesis
        by (cases "drain C (snd (writeData C d r'))") simp_all
    next
      case False
      with nt p less.prems(2) have e: "es = [event res r']" "r1 = r'"
        by (auto simp: drain.simps[of C r])
      from w(1)[OF False] nt False e l show ?thesis
        by (simp add: drain.simps[of C "snd (writeData C d r)"])
    qed
  qed
qed

text \<open>Two chunks written one after the other and the two written as one.\<close>

lemma feed_merge:
  assumes R: "resumable C sz" and h: "hasParser r"
  shows "map_option fst (feed C (d # e # ds) r) = map_option fst (feed C ((d @ e) # ds) r)"
proof -
  let ?A = "\<lambda>d r. snd (writeData C d r)"
  have s: "?A d r = r\<lparr>m_parsingBuffer := snd (buffer_writeData C d (m_parsingBuffer r))\<rparr>"
    for d r by (simp add: writeData_def split: prod.splits)
  from R have "snd (buffer_writeData C (d @ e) (m_parsingBuffer r)) =
      snd (buffer_writeData C e (snd (buffer_writeData C d (m_parsingBuffer r))))"
    unfolding resumable_def by blast
  then have a: "?A (d @ e) r = ?A e (?A d r)" by (simp add: s)
  from drain_total[OF R, of "?A d r"] h obtain es1 r1 where
    d1: "drain C (?A d r) = Some (es1, r1)" and h1: "hasParser r1" by auto
  note w = drain_writeData[OF R _ d1, of e]
  show ?thesis
  proof (cases "lastParsingResult r1 = ParsingResult_NeedMoreData")
    case False
    with w h have "drain C (?A e (?A d r)) = Some (es1, ?A e r1)" by simp
    with d1 False show ?thesis by (simp add: a)
  next
    case True
    from drain_total[OF R, of "?A e r1"] h1 obtain es2 r2 where
      d2: "drain C (?A e r1) = Some (es2, r2)" by auto
    from w h True d2 have "drain C (?A e (?A d r)) = Some (es1 @ es2, r2)" by simp
    with d1 d2 True show ?thesis
      by (cases "feed C ds r2") (auto simp: a)
  qed
qed

lemma feed_concat:
  assumes R: "resumable C sz"
  shows "hasParser r \<Longrightarrow> chunks \<noteq> [] \<Longrightarrow>
         map_option fst (feed C chunks r) = map_option fst (feed C [concat chunks] r)"
proof (induction "length chunks" arbitrary: chunks rule: less_induct)
  case less
  show ?case
  proof (cases chunks)
    case Nil
    with less.prems show ?thesis by simp
  next
    case (Cons d ds)
    show ?thesis
    proof (cases ds)
      case Nil
      with Cons show ?thesis by simp
    next
      case (Cons e es)
      with \<open>chunks = d # ds\<close> have c: "chunks = d # e # es" by simp
      have "map_option fst (feed C chunks r) = map_option fst (feed C ((d @ e) # es) r)"
        unfolding c by (rule feed_merge[OF R less.prems(1)])
      also have "\<dots> = map_option fst (feed C [concat ((d @ e) # es)] r)"
        by (rule less.hyps) (simp_all add: c less.prems(1))
      finally show ?thesis by (simp add: c)
    qed
  qed
qed

lemma feed_total:
  assumes R: "resumable C sz"
  shows "hasParser r \<Longrightarrow> \<exists>es r1. feed C chunks r = Some (es, r1)"
proof (induction chunks arbitrary: r)
  case Nil
  then show ?case by simp
next
  case (Cons d ds)
  from drain_total[OF R, of "snd (writeData C d r)"] Cons.prems obtain es1 r1 where
    d1: "drain C (snd (writeData C d r)) = Some (es1, r1)" and h1: "hasParser r1" by auto
  from Cons.IH[OF h1] obtain es2 r2 where "feed C ds r1 = Some (es2, r2)" by blast
  with d1 show ?case by auto
qed


subsection \<open>The parsers of the specification can be fed in pieces\<close>

lemma drive_append:
  "drive step s (b @ d) =
     (case drive step s b of
        (res, s1, b1) \<Rightarrow>
          if res = Result_NeedMoreData then drive step s1 (b1 @ d) else (res, s1, b1 @ d))"
proof (induction step s b rule: drive.induct)
  case (1 step s b)
  show ?case
  proof (cases "utf8_decode b")
    case Utf_Incomplete
    then show ?thesis by (simp add: drive.simps[of step s b])
  next
    case Utf_Error
    then have "utf8_decode (b @ d) = Utf_Error" by (simp add: utf8_decode_append)
    with Utf_Error show ?thesis
      by (simp add: drive.simps[of step s b] drive.simps[of step s "b @ d"])
  next
    case (Utf_Success c n)
    then have a: "utf8_decode (b @ d) = Utf_Success c n" by (simp add: utf8_decode_append)
    from utf8_decode_length[OF Utf_Success] have n: "n \<le> length b" by simp
    then have t: "take n (b @ d) = take n b" "drop n (b @ d) = drop n b @ d" by simp_all
    show ?thesis
    proof (cases "step s c (take n b)")
      case (Next s1)
      from "1.IH"[OF Utf_Success Next] Utf_Success a Next t show ?thesis
        by (simp add: drive.simps[of step s b] drive.simps[of step s "b @ d"] del: take_append
            drop_append)
    next
      case (Done s1 given)
      with Utf_Success a t show ?thesis
        by (simp add: drive.simps[of step s b] drive.simps[of step s "b @ d"] del: take_append
            drop_append)
    next
      case (Fail s1)
      with Utf_Success a t show ?thesis
        by (simp add: drive.simps[of step s b] drive.simps[of step s "b @ d"] del: take_append
            drop_append)
    qed
  qed
qed

lemma drive_Success:
  "drive step s b = (Result_Success, s1, b1) \<Longrightarrow>
   \<exists>s0 c bytes given cs.
     step s0 c bytes = Done s1 given \<and> b1 = given @ cs \<and> length cs < length b"
proof (induction step s b rule: drive.induct)
  case (1 step s b)
  show ?case
  proof (cases "utf8_decode b")
    case (Utf_Success c n)
    from utf8_decode_length[OF Utf_Success] have n: "0 < n" "n \<le> length b" by simp_all
    show ?thesis
    proof (cases "step s c (take n b)")
      case (Next s2)
      with Utf_Success "1.prems" have "drive step s2 (drop n b) = (Result_Success, s1, b1)"
        by (simp add: drive.simps[of step s b])
      from "1.IH"[OF Utf_Success Next this] obtain s0 c' bytes given cs where
        "step s0 c' bytes = Done s1 given" "b1 = given @ cs" "length cs < length (drop n b)"
        by blast
      moreover from this(3) have "length cs < length b" by simp
      ultimately show ?thesis by blast
    next
      case (Done s2 given)
      with Utf_Success "1.prems" have "s2 = s1" "b1 = given @ drop n b"
        by (simp_all add: drive.simps[of step s b])
      with Done n show ?thesis by (intro exI[of _ s] exI[of _ c] exI[of _ "take n b"]
            exI[of _ given] exI[of _ "drop n b"]) simp
    next
      case (Fail s2)
      with Utf_Success "1.prems" show ?thesis by (simp add: drive.simps[of step s b])
    qed
  qed (use "1.prems" in \<open>simp_all add: drive.simps[of step s b]\<close>)
qed

lemma TokenTypeParser_step_Done:
  assumes "TokenTypeParser_step s0 c bytes = Done s1 given"
    and "tt_tokenFound s1 = TokenType_Whitespace \<or>
         tt_tokenFound s1 = TokenType_ProcessingInstruction \<or>
         tt_tokenFound s1 = TokenType_XmlDeclaration"
  shows "given = []"
  using assms
  by (cases "tt_state s0")
     (auto simp: TokenTypeParser_step_def tt_waiting_def tt_found_def tt_failed_def
       split: if_splits)

lemma ProcessingInstructionParser_step_Done:
  assumes "ProcessingInstructionParser_step s0 c bytes = Done s1 given"
  shows "given = []"
  using assms
  by (cases "pi_state s0")
     (auto simp: ProcessingInstructionParser_step_def pi_finished_def pi_failed_def
       split: if_splits option.splits)

lemma resumable_specCollaborators: "resumable specCollaborators length"
  unfolding resumable_def
proof (intro conjI allI impI)
  fix d
  show "resumesWith specCollaborators True
          (\<lambda>b. snd (buffer_writeData specCollaborators d b))"
    unfolding resumesWith_def
  proof (intro allI)
    fix p b
    show "case tokenParser_parse specCollaborators p b of
            (res, p1, b1) \<Rightarrow>
              if True \<and> res = Result_NeedMoreData
              then tokenParser_parse specCollaborators p
                     (snd (buffer_writeData specCollaborators d b)) =
                   tokenParser_parse specCollaborators p1
                     (snd (buffer_writeData specCollaborators d b1))
              else tokenParser_parse specCollaborators p
                     (snd (buffer_writeData specCollaborators d b)) =
                   (res, p1, snd (buffer_writeData specCollaborators d b1))"
    proof (cases p)
      case (TokenParser_TokenType t)
      obtain res t1 b1 where e: "drive TokenTypeParser_step t b = (res, t1, b1)"
        by (cases "drive TokenTypeParser_step t b")
      with TokenParser_TokenType drive_append[of TokenTypeParser_step t b d] show ?thesis
        by (cases "drive TokenTypeParser_step t1 (b1 @ d)")
           (simp add: ParsingBuffer_writeData_def)
    next
      case (TokenParser_ProcessingInstruction q)
      obtain res q1 b1 where e: "drive ProcessingInstructionParser_step q b = (res, q1, b1)"
        by (cases "drive ProcessingInstructionParser_step q b")
      with TokenParser_ProcessingInstruction
        drive_append[of ProcessingInstructionParser_step q b d] show ?thesis
        by (cases "drive ProcessingInstructionParser_step q1 (b1 @ d)")
           (simp add: ParsingBuffer_writeData_def)
    qed
  qed
next
  fix d e b
  show "snd (buffer_writeData specCollaborators (d @ e) b) =
        snd (buffer_writeData specCollaborators e (snd (buffer_writeData specCollaborators d b)))"
    by (simp add: ParsingBuffer_writeData_def)
next
  fix p b p1 b1
  assume a: "tokenParser_parse specCollaborators p b = (Result_Success, p1, b1) \<and>
       (tokenFound specCollaborators p1 = TokenType_Whitespace \<or>
        tokenFound specCollaborators p1 = TokenType_ProcessingInstruction \<or>
        tokenFound specCollaborators p1 = TokenType_XmlDeclaration)"
  show "length b1 < length b"
  proof (cases p)
    case (TokenParser_TokenType t)
    with a obtain t1 where e: "drive TokenTypeParser_step t b = (Result_Success, t1, b1)"
      and p1: "p1 = TokenParser_TokenType t1"
      by (cases "drive TokenTypeParser_step t b") auto
    from drive_Success[OF e] obtain s0 c bytes given cs where
      s: "TokenTypeParser_step s0 c bytes = Done t1 given" and b: "b1 = given @ cs"
      and l: "length cs < length b" by blast
    from a p1 TokenTypeParser_step_Done[OF s] have "given = []" by simp
    with b l show ?thesis by simp
  next
    case (TokenParser_ProcessingInstruction q)
    with a obtain q1 where
      e: "drive ProcessingInstructionParser_step q b = (Result_Success, q1, b1)"
      by (cases "drive ProcessingInstructionParser_step q b") auto
    from drive_Success[OF e] obtain s0 c bytes given cs where
      s: "ProcessingInstructionParser_step s0 c bytes = Done q1 given" and b: "b1 = given @ cs"
      and l: "length cs < length b" by blast
    from ProcessingInstructionParser_step_Done[OF s] b l show ?thesis by simp
  qed
qed


lemma hasParser_XmlReader_new: "hasParser XmlReader_new"
  by (simp add: hasParser_def XmlReader_new_def clear_def startNewDocument_def)

lemma drain_written_Nil: "map_option fst (drain specCollaborators (written [])) = Some []"
proof -
  have "parse specCollaborators (written []) =
          Some (ParsingResult_NeedMoreData,
                (awaiting [])\<lparr>m_tokenParser := Some (TokenParser_TokenType (TokenTypeParser_new Option_None)),
                   m_parsingBuffer := [], m_parsingState := ParsingState_ReadingTokenType,
                   m_lastParsingResult := ParsingResult_NeedMoreData\<rparr>)"
    unfolding parse_written_awaiting
    by (rule parse_TokenType_NeedMoreData
          [where p = "TokenParser_TokenType (TokenTypeParser_new Option_None)"])
       (simp_all add: drive_Nil)
  then show ?thesis by (simp add: drain.simps[of _ "written []"])
qed

text \<open>
  C1. For token parsers that can be fed in pieces, the reader returns the same tokens,
  with the same values of the getters, and the same terminal result, whether the chunks
  of a document are written one at a time, the reader being drained after each, or the
  whole document is written at once; and the caller's loops end. The token parsers of the
  specification are such parsers, so this holds for them from a new reader for every list
  of chunks.
\<close>

theorem chunking_invariance:
  \<open>(resumable C sz \<and> hasParser r \<and> chunks \<noteq> [] \<longrightarrow>
      (\<exists>es r1. feed C chunks r = Some (es, r1)) \<and>
      map_option fst (feed C chunks r) = map_option fst (feed C [concat chunks] r)) \<and>
   (\<exists>es r1. feed specCollaborators chunks XmlReader_new = Some (es, r1)) \<and>
   map_option fst (feed specCollaborators chunks XmlReader_new) =
     map_option fst (feed specCollaborators [concat chunks] XmlReader_new)\<close>
proof (intro conjI impI)
  assume a: "resumable C sz \<and> hasParser r \<and> chunks \<noteq> []"
  then have R: "resumable C sz" and h: "hasParser r" and c: "chunks \<noteq> []" by simp_all
  from feed_total[OF R h] show "\<exists>es r1. feed C chunks r = Some (es, r1)" .
  from feed_concat[OF R h c]
  show "map_option fst (feed C chunks r) = map_option fst (feed C [concat chunks] r)" .
next
  from feed_total[OF resumable_specCollaborators hasParser_XmlReader_new]
  show "\<exists>es r1. feed specCollaborators chunks XmlReader_new = Some (es, r1)" .
next
  show "map_option fst (feed specCollaborators chunks XmlReader_new) =
     map_option fst (feed specCollaborators [concat chunks] XmlReader_new)"
  proof (cases "chunks = []")
    case True
    from drain_written_Nil
    have "map_option fst (feed specCollaborators [[]] XmlReader_new) = Some []"
      by (cases "drain specCollaborators (written [])")
         (auto simp: written_def[symmetric])
    moreover have "feed specCollaborators [] XmlReader_new = Some ([], XmlReader_new)"
      by simp
    ultimately show ?thesis unfolding True by (auto simp del: feed.simps)
  next
    case False
    from feed_concat[OF resumable_specCollaborators hasParser_XmlReader_new False]
    show ?thesis .
  qed
qed

lemma feed_example:
  \<open>map_option fst (feed specCollaborators [''  <?pi?>''] XmlReader_new) =
     Some [(ParsingResult_ProcessingInstruction, XmlDeclaration_clear,
            \<lparr>piTarget = ''pi'', piData = []\<rparr>)]\<close>
proof -
  have 1: \<open>parse specCollaborators (written ''  <?pi?>'') =
           Some (ParsingResult_ProcessingInstruction, instructionRead)\<close>
    using parse_awaiting_whitespace by (simp add: parse_written_awaiting)
  have 2: "parse specCollaborators instructionRead =
           Some (ParsingResult_NeedMoreData,
             instructionRead\<lparr>m_tokenParser :=
                 Some (TokenParser_TokenType (TokenTypeParser_new Option_IgnoreLeadingWhitespace)),
               m_parsingState := ParsingState_ReadingTokenType,
               m_lastParsingResult := ParsingResult_NeedMoreData\<rparr>)"
    by (rule parse_spec_empty) (simp_all add: instructionRead_def)
  from 2 have 3: "drain specCollaborators instructionRead =
           Some ([], instructionRead\<lparr>m_tokenParser :=
                 Some (TokenParser_TokenType (TokenTypeParser_new Option_IgnoreLeadingWhitespace)),
               m_parsingState := ParsingState_ReadingTokenType,
               m_lastParsingResult := ParsingResult_NeedMoreData\<rparr>)"
    by (simp add: drain.simps[of _ instructionRead])
  from 1 3 show ?thesis
    by (simp add: written_def[symmetric] drain.simps[of _ "written _"] event_def
        xmlDeclaration_def processingInstruction_def lastParsingResult_def instructionRead_def)
qed

theorem chunking_invariance_witness:
  \<open>resumable specCollaborators length \<and> hasParser XmlReader_new \<and>
   map_option fst (feed specCollaborators [''  <'', ''?p'', ''i?>''] XmlReader_new) =
     Some [(ParsingResult_ProcessingInstruction, XmlDeclaration_clear,
            \<lparr>piTarget = ''pi'', piData = []\<rparr>)]\<close>
  using chunking_invariance[of specCollaborators length XmlReader_new
      \<open>[''  <'', ''?p'', ''i?>'']\<close>]
    resumable_specCollaborators hasParser_XmlReader_new feed_example
  by simp

end
